theory Spec2Isabelle
  imports Main "HOL-Library.Sublist" "HOL-Library.Char_ord" "HOL-Library.List_Lexorder"
begin

section \<open>Python strings\<close>

text \<open>
  The two scripts work on Python \<open>str\<close> values with \<open>len\<close>, \<open>in\<close>, \<open>lower\<close>,
  \<open>title\<close>, \<open>capitalize\<close>, \<open>strip\<close>, \<open>rstrip\<close>, \<open>replace\<close>, \<open>join\<close>, slices and a
  handful of regular expressions. A \<open>str\<close> is modelled as a \<open>string\<close>, one \<open>char\<close> per
  code point, so \<open>length\<close> is Python's \<open>len\<close>. A \<open>char\<close> is a code point below 256, so
  the strings of the model are the Python strings over ASCII and Latin-1; a string
  with a code point from 256 on is not a value of the model. The character classes
  and case mappings below are Python's on these code points.
\<close>

text \<open>The classes \<open>[A-Z]\<close>, \<open>[a-z]\<close> and \<open>[0-9]\<close>.\<close>

definition upper_letters :: string where
  "upper_letters = ''ABCDEFGHIJKLMNOPQRSTUVWXYZ''"

definition lower_letters :: string where
  "lower_letters = ''abcdefghijklmnopqrstuvwxyz''"

definition digit_chars :: string where
  "digit_chars = ''0123456789''"

definition is_upper :: "char \<Rightarrow> bool" where
  "is_upper c = (c \<in> set upper_letters)"

definition is_lower :: "char \<Rightarrow> bool" where
  "is_lower c = (c \<in> set lower_letters)"

definition is_alpha :: "char \<Rightarrow> bool" where
  "is_alpha c = (is_upper c \<or> is_lower c)"

text \<open>\<open>\d\<close>: below 256 the only decimal digits are \<open>0-9\<close>.\<close>

definition is_digit :: "char \<Rightarrow> bool" where
  "is_digit c = (c \<in> set digit_chars)"

text \<open>
  The upper-case letters of Latin-1, \<open>0xC0\<close> to \<open>0xDE\<close> without the multiplication
  sign, and their lower-case partners, \<open>0xE0\<close> to \<open>0xFE\<close> without the division sign.
\<close>

definition latin_upper :: string where
  "latin_upper =
     [CHR 0xC0, CHR 0xC1, CHR 0xC2, CHR 0xC3, CHR 0xC4, CHR 0xC5, CHR 0xC6, CHR 0xC7,
      CHR 0xC8, CHR 0xC9, CHR 0xCA, CHR 0xCB, CHR 0xCC, CHR 0xCD, CHR 0xCE, CHR 0xCF,
      CHR 0xD0, CHR 0xD1, CHR 0xD2, CHR 0xD3, CHR 0xD4, CHR 0xD5, CHR 0xD6, CHR 0xD8,
      CHR 0xD9, CHR 0xDA, CHR 0xDB, CHR 0xDC, CHR 0xDD, CHR 0xDE]"

definition latin_lower :: string where
  "latin_lower =
     [CHR 0xE0, CHR 0xE1, CHR 0xE2, CHR 0xE3, CHR 0xE4, CHR 0xE5, CHR 0xE6, CHR 0xE7,
      CHR 0xE8, CHR 0xE9, CHR 0xEA, CHR 0xEB, CHR 0xEC, CHR 0xED, CHR 0xEE, CHR 0xEF,
      CHR 0xF0, CHR 0xF1, CHR 0xF2, CHR 0xF3, CHR 0xF4, CHR 0xF5, CHR 0xF6, CHR 0xF8,
      CHR 0xF9, CHR 0xFA, CHR 0xFB, CHR 0xFC, CHR 0xFD, CHR 0xFE]"

text \<open>
  The other alphanumeric characters of Latin-1: the ordinal indicators, the
  superscript digits, the micro sign, the fractions, the sharp s and the y with
  diaeresis. Of these the ordinal indicators, the micro sign, the sharp s and the y
  with diaeresis are cased.
\<close>

definition latin_other_word :: string where
  "latin_other_word =
     [CHR 0xAA, CHR 0xB2, CHR 0xB3, CHR 0xB5, CHR 0xB9, CHR 0xBA, CHR 0xBC, CHR 0xBD,
      CHR 0xBE, CHR 0xDF, CHR 0xFF]"

definition latin_other_cased :: string where
  "latin_other_cased = [CHR 0xAA, CHR 0xB5, CHR 0xBA, CHR 0xDF, CHR 0xFF]"

text \<open>The regular expression class \<open>\w\<close> of a \<open>str\<close> pattern: what \<open>str.isalnum\<close>
  accepts, and the underscore.\<close>

definition is_word :: "char \<Rightarrow> bool" where
  "is_word c =
     (is_alpha c \<or> is_digit c \<or> c = CHR ''_''
      \<or> c \<in> set latin_upper \<or> c \<in> set latin_lower \<or> c \<in> set latin_other_word)"

text \<open>The cased characters, which \<open>str.title\<close> takes as the inside of a word.\<close>

definition is_cased :: "char \<Rightarrow> bool" where
  "is_cased c =
     (is_alpha c \<or> c \<in> set latin_upper \<or> c \<in> set latin_lower \<or> c \<in> set latin_other_cased)"

text \<open>\<open>str.isspace\<close> and \<open>\s\<close>: tab, line feed, vertical tab, form feed, carriage
  return, the four separators \<open>0x1c\<close> to \<open>0x1f\<close>, the space, the next-line control
  \<open>0x85\<close> and the no-break space \<open>0xa0\<close>.\<close>

definition is_space :: "char \<Rightarrow> bool" where
  "is_space c = (c \<in> {CHR 0x09, CHR 0x0A, CHR 0x0B, CHR 0x0C, CHR 0x0D,
                        CHR 0x1C, CHR 0x1D, CHR 0x1E, CHR 0x1F, CHR '' '',
                        CHR 0x85, CHR 0xA0})"

text \<open>The lower-case mapping of one character: an upper-case letter goes to its
  partner, every other character stays.\<close>

definition lower_char :: "char \<Rightarrow> char" where
  "lower_char c =
     (case map_of (zip (upper_letters @ latin_upper) (lower_letters @ latin_lower)) c of
        Some d \<Rightarrow> d
      | None \<Rightarrow> c)"

text \<open>
  The title-case mapping of one character, which is also its upper-case mapping: a
  lower-case letter goes to its partner. Python maps three more characters of
  Latin-1: the micro sign and the y with diaeresis to code points above 255, and the
  sharp s to two letters. These results are no \<open>char\<close>; the model leaves the three
  characters as they are. The mapping is applied to action verbs only.
\<close>

definition upper_char :: "char \<Rightarrow> char" where
  "upper_char c =
     (case map_of (zip (lower_letters @ latin_lower) (upper_letters @ latin_upper)) c of
        Some d \<Rightarrow> d
      | None \<Rightarrow> c)"

text \<open>\<open>s.lower()\<close>.\<close>

definition py_lower :: "string \<Rightarrow> string" where
  "py_lower s = map lower_char s"

text \<open>\<open>s.capitalize()\<close>: the first character in title case, the rest in lower case.\<close>

definition py_capitalize :: "string \<Rightarrow> string" where
  "py_capitalize s = (case s of [] \<Rightarrow> [] | c # cs \<Rightarrow> upper_char c # map lower_char cs)"

text \<open>\<open>s.title()\<close>: a character that follows a cased character is put in lower case,
  any other in title case; the flag says whether the previous character was cased.
  The two mappings leave an uncased character as it is.\<close>

fun title_from :: "bool \<Rightarrow> string \<Rightarrow> string" where
  "title_from prev [] = []"
| "title_from prev (c # cs) =
     (if is_cased c then (if prev then lower_char c else upper_char c) # title_from True cs
      else c # title_from False cs)"

definition py_title :: "string \<Rightarrow> string" where
  "py_title s = title_from False s"

text \<open>\<open>s.lstrip()\<close>, \<open>s.rstrip()\<close> and \<open>s.strip()\<close> over a class of characters:
  white space when called without argument, the characters of the argument otherwise.\<close>

definition lstrip_chars :: "(char \<Rightarrow> bool) \<Rightarrow> string \<Rightarrow> string" where
  "lstrip_chars P s = dropWhile P s"

definition rstrip_chars :: "(char \<Rightarrow> bool) \<Rightarrow> string \<Rightarrow> string" where
  "rstrip_chars P s = rev (dropWhile P (rev s))"

definition py_strip :: "string \<Rightarrow> string" where
  "py_strip s = rstrip_chars is_space (lstrip_chars is_space s)"

text \<open>\<open>s.replace(a, b)\<close> for one-character \<open>a\<close> and \<open>b\<close>.\<close>

definition replace_char :: "char \<Rightarrow> char \<Rightarrow> string \<Rightarrow> string" where
  "replace_char a b s = map (\<lambda>c. if c = a then b else c) s"

text \<open>\<open>sep.join(xs)\<close>.\<close>

fun join :: "string \<Rightarrow> string list \<Rightarrow> string" where
  "join sep [] = []"
| "join sep [x] = x"
| "join sep (x # y # ys) = x @ sep @ join sep (y # ys)"

text \<open>\<open>str(n)\<close> for a non-negative integer.\<close>

definition digit_char :: "nat \<Rightarrow> char" where
  "digit_char d = digit_chars ! d"

function str_nat :: "nat \<Rightarrow> string" where
  "str_nat n = (if n < 10 then [digit_char n] else str_nat (n div 10) @ [digit_char (n mod 10)])"
  by pat_completeness auto
termination
  by (relation "measure id") auto

declare str_nat.simps [simp del]

text \<open>\<open>p in s\<close> for strings is \<^term>\<open>sublist p s\<close>: \<open>p\<close> occurs in \<open>s\<close> as a
  contiguous run.\<close>

section \<open>The analysis result\<close>

text \<open>
  \<open>analyze_skill\<close> returns a dict with a fixed set of keys. The fields below are the
  ones that the quality checks, the classifier, the generator, the scorer and the
  advisor read; \<open>description_length\<close>, \<open>technologies\<close>, \<open>resources\<close> and \<open>body_lines\<close>
  are only printed.
\<close>

record analysis =
  name :: string
  current_description :: string
  file_types :: "string list"
  action_verbs :: "string list"
  headings :: "string list"
  estimated_scenarios :: "string list"
  quality_issues :: "string list"

section \<open>Regular expressions of the scorer and the advisor\<close>

text \<open>
  \<open>re.search\<close> with an alternation of literal strings succeeds exactly when one of the
  literals occurs in the subject.
\<close>

text \<open>\<open>use (this skill )?when|when claude needs\<close>\<close>

definition search_trigger_scorer :: "string \<Rightarrow> bool" where
  "search_trigger_scorer s =
     (sublist ''use when'' s \<or> sublist ''use this skill when'' s \<or> sublist ''when claude needs'' s)"

text \<open>\<open>use (this skill )?when\<close>\<close>

definition search_trigger_advisor :: "string \<Rightarrow> bool" where
  "search_trigger_advisor s = (sublist ''use when'' s \<or> sublist ''use this skill when'' s)"

text \<open>\<open>(use this skill when|when claude needs|use when)\<close>\<close>

definition search_trigger_analyzer :: "string \<Rightarrow> bool" where
  "search_trigger_analyzer s =
     (sublist ''use this skill when'' s \<or> sublist ''when claude needs'' s \<or> sublist ''use when'' s)"

text \<open>\<open>or any other|or other\<close>\<close>

definition search_catchall :: "string \<Rightarrow> bool" where
  "search_catchall s = (sublist ''or any other'' s \<or> sublist ''or other'' s)"

text \<open>\<open>examples? include|such as|e\.g\.|including\<close>\<close>

definition search_examples :: "string \<Rightarrow> bool" where
  "search_examples s =
     (sublist ''example include'' s \<or> sublist ''examples include'' s \<or> sublist ''such as'' s
      \<or> sublist ''e.g.'' s \<or> sublist ''including'' s)"

text \<open>\<open>see skill\.md|refer to|see below\<close>\<close>

definition search_body_reference :: "string \<Rightarrow> bool" where
  "search_body_reference s =
     (sublist ''see skill.md'' s \<or> sublist ''refer to'' s \<or> sublist ''see below'' s)"

text \<open>
  \<open>\(\d+\)\<close> at the start of a string: an opening parenthesis, the longest run of
  digits, which must not be empty, and a closing parenthesis. The result is the text
  after the match.
\<close>

definition match_enum :: "string \<Rightarrow> string option" where
  "match_enum s =
     (case s of
        [] \<Rightarrow> None
      | c # r \<Rightarrow>
          if c = CHR ''('' \<and> takeWhile is_digit r \<noteq> []
          then (case dropWhile is_digit r of
                  [] \<Rightarrow> None
                | d # rest \<Rightarrow> if d = CHR '')'' then Some rest else None)
          else None)"

lemma match_enum_shorter: "match_enum s = Some r \<Longrightarrow> length r < length s"
proof -
  assume m: "match_enum s = Some r"
  then obtain c t where s: "s = c # t"
    by (cases s) (auto simp: match_enum_def)
  from m s obtain d where "dropWhile is_digit t = d # r"
    by (auto simp: match_enum_def split: if_splits list.splits)
  then have "length (d # r) \<le> length t"
    by (metis length_dropWhile_le)
  with s show ?thesis by simp
qed

text \<open>\<open>re.search(r'\(\d+\)', s)\<close>: is there a match at some position.\<close>

fun search_enum :: "string \<Rightarrow> bool" where
  "search_enum [] = False"
| "search_enum (c # cs) = (match_enum (c # cs) \<noteq> None \<or> search_enum cs)"

text \<open>\<open>len(re.findall(r'\(\d+\)', s))\<close>: the matches are taken from left to right, and
  the scan goes on after the end of each match.\<close>

function count_enum :: "string \<Rightarrow> nat" where
  "count_enum [] = 0"
| "count_enum (c # cs) =
     (case match_enum (c # cs) of
        Some r \<Rightarrow> Suc (count_enum r)
      | None \<Rightarrow> count_enum cs)"
  by pat_completeness auto
termination
  by (relation "measure length") (auto dest: match_enum_shorter)

section \<open>The scorer\<close>

text \<open>Each block of \<open>score_description\<close> adds its points to \<open>score\<close>; the blocks are
  independent of each other, so each is a function of the description and the analysis.\<close>

definition score_length :: "string \<Rightarrow> int" where
  "score_length description =
     (if 100 \<le> length description \<and> length description \<le> 800 then 10
      else if 50 \<le> length description \<and> length description \<le> 1000 then 5
      else 0)"

definition score_trigger :: "string \<Rightarrow> int" where
  "score_trigger description = (if search_trigger_scorer (py_lower description) then 20 else 0)"

definition score_enum :: "string \<Rightarrow> int" where
  "score_enum description =
     (let enum_count = count_enum description
      in if enum_count \<ge> 3 then 20 else if enum_count \<ge> 1 then 10 else 0)"

definition mentioned :: "string \<Rightarrow> string list \<Rightarrow> nat" where
  "mentioned description fts =
     length (filter (\<lambda>ext. sublist (''.'' @ ext) (py_lower description)) fts)"

definition score_file_types :: "string \<Rightarrow> analysis \<Rightarrow> int" where
  "score_file_types description a =
     (if file_types a \<noteq> []
      then (if mentioned description (file_types a) > 0 then 15 else 0)
      else 15)"

definition score_catchall :: "string \<Rightarrow> int" where
  "score_catchall description = (if search_catchall (py_lower description) then 10 else 0)"

definition score_examples :: "string \<Rightarrow> int" where
  "score_examples description = (if search_examples (py_lower description) then 10 else 0)"

definition has_angle :: "string \<Rightarrow> bool" where
  "has_angle s = (CHR ''<'' \<in> set s \<or> CHR ''>'' \<in> set s)"

definition has_antipattern :: "string \<Rightarrow> bool" where
  "has_antipattern description =
     (search_body_reference (py_lower description) \<or> has_angle description)"

definition score_antipattern :: "string \<Rightarrow> int" where
  "score_antipattern description = (if has_antipattern description then 0 else 15)"

definition score_description :: "string \<Rightarrow> analysis \<Rightarrow> int" where
  "score_description description a =
     (if description = [] then 0
      else score_length description + score_trigger description + score_enum description
           + score_file_types description a + score_catchall description
           + score_examples description + score_antipattern description)"

section \<open>The signal extractors of the analyzer\<close>

definition PRIMARY_EXTENSIONS :: "string list" where
  "PRIMARY_EXTENSIONS =
     [''docx'', ''xlsx'', ''pdf'', ''pptx'', ''csv'', ''tsv'', ''json'', ''xml'', ''html'']"

definition ALL_EXTENSIONS :: "string list" where
  "ALL_EXTENSIONS =
     [''docx'', ''xlsx'', ''pdf'', ''pptx'', ''csv'', ''tsv'', ''json'', ''xml'', ''html'',
      ''md'', ''txt'', ''py'', ''js'', ''ts'', ''jsx'', ''tsx'', ''yaml'', ''yml'',
      ''png'', ''jpg'', ''jpeg'', ''gif'', ''svg'']"

text \<open>
  Both extension patterns are \<open>\.(alt|...|alt)\b\<close> with \<open>re.IGNORECASE\<close>. After the dot
  the alternatives are tried in the order of the pattern; an alternative matches when
  the text, in lower case, starts with it and a word boundary follows, that is the next
  character is no word character or the text ends there (the alternative ends with a
  letter). A failed boundary sends the matcher to the next alternative. The result is
  the text of the group, in the case of the subject, and the text after the match.

  The alternatives are words over \<open>a-z\<close>. Among the code points below 256 a letter
  \<open>a-z\<close> of the pattern matches, with \<open>re.IGNORECASE\<close>, itself and its capital and
  nothing else, and these two are the characters whose lower case is that letter. So
  the comparison of the lower-case text with the alternative is the case-insensitive
  match. From code point 256 on there are further matches (\<open>U+0130\<close> and \<open>U+0131\<close>
  for \<open>i\<close>, \<open>U+017F\<close> for \<open>s\<close>, \<open>U+212A\<close> for \<open>k\<close>); such strings are no values of
  the model.
\<close>

fun match_alts :: "string list \<Rightarrow> string \<Rightarrow> (string \<times> string) option" where
  "match_alts [] s = None"
| "match_alts (alt # alts) s =
     (if py_lower (take (length alt) s) = alt
         \<and> (case drop (length alt) s of [] \<Rightarrow> True | c # rest \<Rightarrow> \<not> is_word c)
      then Some (take (length alt) s, drop (length alt) s)
      else match_alts alts s)"

lemma match_alts_shorter: "match_alts alts s = Some (m, r) \<Longrightarrow> length r \<le> length s"
  by (induction alts) (auto split: if_splits)

text \<open>\<open>pattern.findall(content)\<close>: the groups of the matches from left to right; the
  scan goes on after the end of each match.\<close>

function findall_ext :: "string list \<Rightarrow> string \<Rightarrow> string list" where
  "findall_ext alts [] = []"
| "findall_ext alts (c # cs) =
     (if c = CHR ''.''
      then (case match_alts alts cs of
              Some (m, r) \<Rightarrow> m # findall_ext alts r
            | None \<Rightarrow> findall_ext alts cs)
      else findall_ext alts cs)"
  by pat_completeness auto
termination
  by (relation "measure (\<lambda>(alts, s). length s)") (auto simp: less_Suc_eq_le dest: match_alts_shorter)

definition CODE_EXTENSIONS :: "string list" where
  "CODE_EXTENSIONS = [''py'', ''js'', ''ts'', ''jsx'', ''tsx'', ''yaml'', ''yml'', ''md'', ''txt'']"

text \<open>\<open>sorted(list(set(xs)))\<close> is \<open>sort (remdups xs)\<close>: the order in which the set is
  listed does not reach the result. Strings are compared as Python compares them,
  character by character, a proper prefix first.\<close>

definition find_file_types :: "string \<Rightarrow> string list" where
  "find_file_types content =
     (let primary_matches = findall_ext PRIMARY_EXTENSIONS content
      in if primary_matches \<noteq> []
         then sort (remdups (map py_lower primary_matches))
         else (let all_matches = findall_ext ALL_EXTENSIONS content;
                   extensions = remdups (map py_lower all_matches);
                   doc_exts = filter (\<lambda>e. e \<notin> set CODE_EXTENSIONS) extensions
               in if doc_exts \<noteq> [] then sort doc_exts else sort extensions))"

definition ACTION_VERBS :: "string list" where
  "ACTION_VERBS =
     [''create'', ''build'', ''generate'', ''make'', ''write'', ''produce'',
      ''edit'', ''modify'', ''update'', ''change'', ''fix'', ''revise'',
      ''analyze'', ''extract'', ''process'', ''parse'', ''read'', ''examine'',
      ''convert'', ''transform'', ''merge'', ''split'', ''combine'',
      ''fill'', ''complete'', ''validate'', ''verify'', ''check'',
      ''format'', ''style'', ''design'', ''layout'', ''render'']"

text \<open>
  \<open>re.findall(r'\b[a-z]+\b', s)\<close>. A match starts at a word boundary, takes the
  longest run of \<open>a-z\<close> and needs a word boundary after it; a shorter run ends before a
  letter, where there is no boundary. So the matches are the longest runs of word
  characters that consist of \<open>a-z\<close> only, from left to right: inside a run of word
  characters no later position is at a boundary.
\<close>

function findall_words :: "string \<Rightarrow> string list" where
  "findall_words [] = []"
| "findall_words (c # cs) =
     (if is_word c
      then (let run = takeWhile is_word (c # cs)
            in (if list_all is_lower run then [run] else [])
               @ findall_words (dropWhile is_word cs))
      else findall_words cs)"
  by pat_completeness auto
termination
  by (relation "measure length") (auto simp: less_Suc_eq_le length_dropWhile_le)

text \<open>
  \<open>Counter(found)\<close> is a dict: a key is entered when it is first met and keeps its
  place, later occurrences add to its count. It is modelled as the list of its items
  in that order.
\<close>

fun counter_add :: "(string \<times> nat) list \<Rightarrow> string \<Rightarrow> (string \<times> nat) list" where
  "counter_add [] w = [(w, 1)]"
| "counter_add ((k, n) # items) w =
     (if k = w then (k, Suc n) # items else (k, n) # counter_add items w)"

definition Counter :: "string list \<Rightarrow> (string \<times> nat) list" where
  "Counter ws = fold (\<lambda>w items. counter_add items w) ws []"

text \<open>
  \<open>counter.most_common(n)\<close> is, by its documentation, the first \<open>n\<close> items of
  \<open>sorted(items, key=count, reverse=True)\<close>: sorted by falling count, items of equal
  count in the order of the dict. \<^const>\<open>sort_key\<close> is such a stable sort, here on
  the negated count.
\<close>

definition most_common :: "nat \<Rightarrow> (string \<times> nat) list \<Rightarrow> (string \<times> nat) list" where
  "most_common n items = take n (sort_key (\<lambda>(w, k). - int k) items)"

definition find_action_verbs :: "string \<Rightarrow> string list" where
  "find_action_verbs content =
     (let words = findall_words (py_lower content);
          found = filter (\<lambda>w. w \<in> set ACTION_VERBS) words
      in map fst (most_common 10 (Counter found)))"



section \<open>The quality checks of the analyzer\<close>

text \<open>
  \<open>repr\<close> of a list of strings, as the f-string of the file-type issue renders it. The
  entries are file extensions, words over \<open>a-z\<close>, which \<open>repr\<close> puts between single
  quotes without any escape.
\<close>

definition repr_list :: "string list \<Rightarrow> string" where
  "repr_list xs = ''['' @ join '', '' (map (\<lambda>x. [CHR 0x27] @ x @ [CHR 0x27]) xs) @ '']''"

definition issue_too_short :: string where
  "issue_too_short = ''Description too short (< 50 chars)''"

definition issue_too_long :: "nat \<Rightarrow> string" where
  "issue_too_long n = ''Description too long ('' @ str_nat n @ '' > 1024 chars)''"

definition issue_angle :: string where
  "issue_angle = ''Contains forbidden angle brackets''"

definition issue_trigger :: string where
  "issue_trigger = ''Missing trigger phrase (Use this skill when...)''"

definition issue_enum :: string where
  "issue_enum = ''No enumerated scenarios (1), (2), (3)...''"

definition issue_file_types :: "string list \<Rightarrow> string" where
  "issue_file_types fts = ''File types '' @ repr_list fts @ '' not in description''"

text \<open>\<open>any(ext in desc.lower() for ext in file_types)\<close>\<close>

definition any_ext_in :: "string \<Rightarrow> string list \<Rightarrow> bool" where
  "any_ext_in desc fts = list_ex (\<lambda>ext. sublist ext (py_lower desc)) fts"

text \<open>The block of \<open>analyze_skill\<close> that fills \<open>quality_issues\<close>: six independent
  checks, each appending its message.\<close>

definition quality_checks :: "string \<Rightarrow> string list \<Rightarrow> string list" where
  "quality_checks desc fts =
     (if length desc < 50 then [issue_too_short] else [])
     @ (if length desc > 1024 then [issue_too_long (length desc)] else [])
     @ (if has_angle desc then [issue_angle] else [])
     @ (if \<not> search_trigger_analyzer (py_lower desc) then [issue_trigger] else [])
     @ (if \<not> search_enum desc then [issue_enum] else [])
     @ (if fts = [] \<or> \<not> any_ext_in desc fts
        then (if fts \<noteq> [] then [issue_file_types fts] else [])
        else [])"

text \<open>
  \<open>analyze_skill\<close> reads \<open>SKILL.md\<close>, parses the front matter with the YAML library
  and calls the extractors. The model starts after the file is read and the front
  matter parsed: it takes the \<open>name\<close> and the \<open>description\<close> of the front matter, the
  content of the file and its body. The headings and the estimated scenarios are
  parameters as well; \<open>estimate_scenarios\<close> lists a Python set, whose order is not
  fixed by the language.
\<close>

definition analyze_skill ::
  "string \<Rightarrow> string \<Rightarrow> string \<Rightarrow> string \<Rightarrow> string list \<Rightarrow> string list \<Rightarrow> analysis" where
  "analyze_skill fm_name fm_description content body hs scenarios =
     \<lparr>name = fm_name,
      current_description = fm_description,
      file_types = find_file_types content,
      action_verbs = find_action_verbs body,
      headings = hs,
      estimated_scenarios = scenarios,
      quality_issues = quality_checks fm_description (find_file_types content)\<rparr>"

section \<open>The classifier\<close>

text \<open>\<open>any(kw in ' '.join(headings) for kw in kws)\<close>\<close>

definition any_kw_in :: "string list \<Rightarrow> string \<Rightarrow> bool" where
  "any_kw_in kws s = list_ex (\<lambda>kw. sublist kw s) kws"

definition document_formats :: "string list" where
  "document_formats = [''docx'', ''pdf'', ''xlsx'', ''pptx'', ''csv'']"

definition reference_keywords :: "string list" where
  "reference_keywords = [''reference'', ''documentation'', ''api'', ''schema'']"

definition workflow_heading_keywords :: "string list" where
  "workflow_heading_keywords = [''workflow'', ''step'', ''process'', ''pipeline'']"

definition classify_skill_type :: "analysis \<Rightarrow> string" where
  "classify_skill_type a =
     (let hs = map py_lower (headings a)
      in if file_types a \<noteq> [] \<and> list_ex (\<lambda>ext. ext \<in> set document_formats) (file_types a)
         then ''file_processor''
         else if any_kw_in reference_keywords (join '' '' hs) then ''knowledge_reference''
         else if any_kw_in workflow_heading_keywords (join '' '' hs) then ''workflow_automation''
         else ''tool_integration'')"

section \<open>The generator\<close>

definition MAX_DESCRIPTION_LENGTH :: nat where
  "MAX_DESCRIPTION_LENGTH = 1024"

text \<open>\<open>name.replace('-', ' ').replace('_', ' ')\<close>\<close>

definition readable_name :: "string \<Rightarrow> string" where
  "readable_name n = replace_char (CHR ''_'') (CHR '' '') (replace_char (CHR ''-'') (CHR '' '') n)"

text \<open>\<open>', '.join('.' + ext for ext in file_types[:k])\<close>\<close>

definition dotted :: "nat \<Rightarrow> string list \<Rightarrow> string" where
  "dotted k fts = join '', '' (map (\<lambda>ext. ''.'' @ ext) (take k fts))"

definition verb_phrase :: "string list \<Rightarrow> string" where
  "verb_phrase verbs =
     (if verbs \<noteq> []
      then py_title (if length verbs > 1
                     then join '', '' (butlast verbs) @ '', and '' @ last verbs
                     else hd verbs)
      else ''Processing and manipulation'')"

definition generate_capability_phrase :: "analysis \<Rightarrow> string" where
  "generate_capability_phrase a =
     (let verbs = take 4 (action_verbs a);
          file_phrase = (if file_types a \<noteq> []
                         then ''for '' @ dotted 3 (file_types a) @ '' files''
                         else ''for '' @ readable_name (name a))
      in verb_phrase verbs @ '' '' @ file_phrase)"

definition generate_file_types_phrase :: "string list \<Rightarrow> string" where
  "generate_file_types_phrase fts =
     (if fts = [] then []
      else ''('' @ join '', '' (map (\<lambda>ext. ''.'' @ ext) (take 4 fts)
                                  @ (if length fts > 4 then [''etc''] else [])) @ '')'')"

text \<open>\<open>enumerate(xs, 1)\<close>\<close>

definition enumerate1 :: "'a list \<Rightarrow> (nat \<times> 'a) list" where
  "enumerate1 xs = zip [1 ..< Suc (length xs)] xs"

definition clean_scenario :: "string \<Rightarrow> string" where
  "clean_scenario scenario =
     (let s = rstrip_chars (\<lambda>c. c = CHR ''.'') (py_strip scenario)
      in if length s > 50 then take 47 s @ ''...'' else s)"

definition generate_scenarios :: "analysis \<Rightarrow> string" where
  "generate_scenarios a =
     (if estimated_scenarios a \<noteq> []
      then join '', '' (map (\<lambda>(i, scenario). ''('' @ str_nat i @ '') '' @ clean_scenario scenario)
                            (enumerate1 (take 4 (estimated_scenarios a))))
      else if action_verbs a \<noteq> []
      then join '', '' (map (\<lambda>(i, verb). ''('' @ str_nat i @ '') '' @ py_capitalize verb @ ''ing content'')
                            (enumerate1 (take 4 (action_verbs a))))
      else ''(1) Processing, (2) Analyzing, (3) Generating output'')"

definition generate_trigger_context :: "analysis \<Rightarrow> string" where
  "generate_trigger_context a =
     (if file_types a \<noteq> []
      then ''working with '' @ dotted 3 (file_types a) @ '' files''
      else ''handling '' @ readable_name (name a) @ '' tasks'')"

definition generate_catchall :: "analysis \<Rightarrow> string" where
  "generate_catchall a = ''or any other '' @ readable_name (name a) @ '' task''"

definition example_keywords :: "string list" where
  "example_keywords = [''creating'', ''editing'', ''reading'', ''converting'', ''processing'', ''building'']"

definition generate_examples :: "analysis \<Rightarrow> string" where
  "generate_examples a =
     (let examples = map (\<lambda>h. py_strip (py_lower h))
                         (filter (\<lambda>h. any_kw_in example_keywords (py_lower h)) (take 6 (headings a)))
      in if examples \<noteq> [] then join '', '' (take 4 examples)
         else if file_types a \<noteq> []
         then ''creating, editing, or analyzing .'' @ hd (file_types a) @ '' files''
         else ''processing, transforming, or generating content'')"

text \<open>The description as the template of the skill type assembles it, before the
  length is looked at.\<close>

definition fill_template :: "analysis \<Rightarrow> string" where
  "fill_template a =
     (let skill_type = classify_skill_type a;
          capability = generate_capability_phrase a;
          scenarios = generate_scenarios a;
          trigger = generate_trigger_context a;
          catchall = generate_catchall a;
          examples = generate_examples a
      in if skill_type = ''file_processor''
         then capability @ ''. '' @ ''Use this skill when '' @ trigger @ '' for: '' @ scenarios @ '', ''
              @ catchall
         else if skill_type = ''knowledge_reference''
         then capability @ ''. '' @ ''Use when users ask about '' @ trigger @ ''. ''
              @ ''Provides authoritative guidance for '' @ examples @ ''.''
         else if skill_type = ''workflow_automation''
         then capability @ ''. '' @ ''Use this skill when '' @ trigger @ '' for: '' @ scenarios @ ''. ''
              @ ''(examples include '' @ examples @ '')''
         else capability @ ''. '' @ ''Use this skill when '' @ trigger @ '' for: '' @ scenarios @ '', ''
              @ catchall)"

text \<open>
  \<open>\(examples include[^)]+\)\<close> at the start of a string: the literal, the longest run
  of characters other than the closing parenthesis, which must not be empty, and a
  closing parenthesis. The result is the text after the match.
\<close>

definition match_examples :: "string \<Rightarrow> string option" where
  "match_examples s =
     (if prefix ''(examples include'' s
      then (let r = drop (length ''(examples include'') s
            in if takeWhile (\<lambda>c. c \<noteq> CHR '')'') r \<noteq> []
               then (case dropWhile (\<lambda>c. c \<noteq> CHR '')'') r of
                       [] \<Rightarrow> None
                     | d # rest \<Rightarrow> Some rest)
               else None)
      else None)"

lemma match_examples_shorter: "match_examples s = Some r \<Longrightarrow> length r < length s"
proof -
  assume m: "match_examples s = Some r"
  let ?t = "drop (length ''(examples include'') s"
  from m obtain d where "dropWhile (\<lambda>c. c \<noteq> CHR '')'') ?t = d # r"
    by (auto simp: match_examples_def Let_def split: if_splits list.splits)
  then have "length (d # r) \<le> length ?t"
    by (metis length_dropWhile_le)
  then show ?thesis by simp
qed

text \<open>\<open>re.sub(r'\(examples include[^)]+\)', '', s)\<close>: every match, from left to
  right, is dropped; a character where no match starts is kept.\<close>

function sub_examples :: "string \<Rightarrow> string" where
  "sub_examples [] = []"
| "sub_examples (c # cs) =
     (case match_examples (c # cs) of
        Some r \<Rightarrow> sub_examples r
      | None \<Rightarrow> c # sub_examples cs)"
  by pat_completeness auto
termination
  by (relation "measure length") (auto dest: match_examples_shorter)

text \<open>
  \<open>\(\d+\)[^,]+,?\s*\<close> at the start of a string: an enumeration mark, the longest
  run of characters other than the comma, which must not be empty, the comma if there
  is one, and the white space that follows.
\<close>

definition match_scenario :: "string \<Rightarrow> string option" where
  "match_scenario s =
     (case match_enum s of
        None \<Rightarrow> None
      | Some r \<Rightarrow>
          if takeWhile (\<lambda>c. c \<noteq> CHR '','') r \<noteq> []
          then Some (dropWhile is_space
                       (case dropWhile (\<lambda>c. c \<noteq> CHR '','') r of [] \<Rightarrow> [] | d # rest \<Rightarrow> rest))
          else None)"

lemma match_scenario_shorter: "match_scenario s = Some r \<Longrightarrow> length r < length s"
proof -
  assume m: "match_scenario s = Some r"
  then obtain t where t: "match_enum s = Some t"
    by (auto simp: match_scenario_def split: option.splits)
  let ?u = "dropWhile (\<lambda>c. c \<noteq> CHR '','') t"
  from m t have r: "r = dropWhile is_space (case ?u of [] \<Rightarrow> [] | d # rest \<Rightarrow> rest)"
    by (simp add: match_scenario_def split: if_splits)
  have a: "length (case ?u of [] \<Rightarrow> [] | d # rest \<Rightarrow> rest) \<le> length ?u"
    by (simp split: list.split)
  have b: "length ?u \<le> length t"
    by (rule length_dropWhile_le)
  have c: "length r \<le> length (case ?u of [] \<Rightarrow> [] | d # rest \<Rightarrow> rest)"
    unfolding r by (rule length_dropWhile_le)
  from a b c have "length r \<le> length t" by linarith
  with match_enum_shorter [OF t] show ?thesis by simp
qed

text \<open>\<open>re.sub(r'\(\d+\)[^,]+,?\s*', '', s, count=n)\<close>: the first \<open>n\<close> matches are
  dropped.\<close>

function sub_scenarios :: "nat \<Rightarrow> string \<Rightarrow> string" where
  "sub_scenarios 0 s = s"
| "sub_scenarios (Suc n) [] = []"
| "sub_scenarios (Suc n) (c # cs) =
     (case match_scenario (c # cs) of
        Some r \<Rightarrow> sub_scenarios n r
      | None \<Rightarrow> c # sub_scenarios (Suc n) cs)"
  by pat_completeness auto
termination
  by (relation "measure (\<lambda>(n, s). length s)") (auto dest: match_scenario_shorter)

text \<open>\<open>re.sub(r'\s+', ' ', s)\<close>: every longest run of white space becomes one space.\<close>

function collapse_ws :: "string \<Rightarrow> string" where
  "collapse_ws [] = []"
| "collapse_ws (c # cs) =
     (if is_space c then CHR '' '' # collapse_ws (dropWhile is_space cs)
      else c # collapse_ws cs)"
  by pat_completeness auto
termination
  by (relation "measure length") (auto simp: less_Suc_eq_le length_dropWhile_le)

text \<open>The part of \<open>generate_optimized_description\<close> after the template is filled.\<close>

definition post_process :: "string \<Rightarrow> string" where
  "post_process description =
     (let d1 = (if length description > MAX_DESCRIPTION_LENGTH
                then py_strip (sub_examples description) else description);
          d2 = (if length d1 > MAX_DESCRIPTION_LENGTH then sub_scenarios 2 d1 else d1);
          d3 = py_strip (collapse_ws d2)
      in rstrip_chars (\<lambda>c. c = CHR '','' \<or> c = CHR ''.'') d3)"

definition generate_optimized_description :: "analysis \<Rightarrow> string" where
  "generate_optimized_description a = post_process (fill_template a)"

section \<open>The advisor\<close>

definition suggest_improvements :: "string \<Rightarrow> string \<Rightarrow> analysis \<Rightarrow> string list" where
  "suggest_improvements current generated a =
     (if \<not> search_trigger_advisor (py_lower current)
      then [''ADD trigger phrase: '' @ [CHR 0x27] @ ''Use this skill when...'' @ [CHR 0x27]] else [])
     @ (if \<not> search_enum current
        then [''ADD enumerated scenarios: (1) Creating, (2) Editing, etc.''] else [])
     @ (if file_types a \<noteq> []
        then (let missing_exts = filter (\<lambda>ext. \<not> sublist (''.'' @ ext) (py_lower current)) (file_types a)
              in if missing_exts \<noteq> []
                 then [''ADD file extensions: '' @ join '', '' (map (\<lambda>e. ''.'' @ e) (take 3 missing_exts))]
                 else [])
        else [])
     @ (if length current < 100
        then [''EXPAND: Description is too short for reliable matching''] else [])
     @ (if length current > 900
        then [''TRIM: Near character limit, prioritize triggers over features''] else [])
     @ (if search_body_reference (py_lower current)
        then [''REMOVE: References to body content (body is invisible before triggering)''] else [])"

text \<open>\<open>main\<close> prints the description with the better score:
  \<open>best = generated if generated_score > current_score else current\<close>.\<close>

definition best_description :: "analysis \<Rightarrow> string" where
  "best_description a =
     (let current = current_description a;
          generated = generate_optimized_description a;
          current_score = score_description current a;
          generated_score = score_description generated a
      in if generated_score > current_score then generated else current)"

section \<open>The tokens of a description\<close>

text \<open>
  The words of the claim about the file-type issue, not of the source: a file type
  "appears as a token" of the description. The tokens of a text are taken as its
  words, the longest runs of word characters; this is the sense in which the spec asks
  that no extension inside a longer token be matched.
\<close>

function spec_tokens :: "string \<Rightarrow> string list" where
  "spec_tokens [] = []"
| "spec_tokens (c # cs) =
     (if is_word c
      then takeWhile is_word (c # cs) # spec_tokens (dropWhile is_word cs)
      else spec_tokens cs)"
  by pat_completeness auto
termination
  by (relation "measure length") (auto simp: less_Suc_eq_le length_dropWhile_le)

definition spec_appears_as_token :: "string \<Rightarrow> string \<Rightarrow> bool" where
  "spec_appears_as_token ext text = (ext \<in> set (spec_tokens text))"

section \<open>Ranking\<close>

text \<open>
  Two notions to state how the verbs are ranked: the position at which a word is first
  met in a list of words, and the order by falling number of occurrences in which
  words of equal number are ordered by that position.
\<close>

definition first_index :: "'a list \<Rightarrow> 'a \<Rightarrow> nat" where
  "first_index xs x = length (takeWhile (\<lambda>y. y \<noteq> x) xs)"

definition ranks_before :: "string list \<Rightarrow> string \<Rightarrow> string \<Rightarrow> bool" where
  "ranks_before ws v w =
     (count_list ws v > count_list ws w
      \<or> (count_list ws v = count_list ws w \<and> first_index ws v < first_index ws w))"

section \<open>Example inputs\<close>

text \<open>The analysis of a skill \<open>pdf-filler\<close> whose description names the file type
  without the dot.\<close>

definition pdf_filler :: analysis where
  "pdf_filler =
     \<lparr>name = ''pdf-filler'',
      current_description = ''Handles pdf forms'',
      file_types = [''pdf''],
      action_verbs = [''fill'', ''extract''],
      headings = [''Filling PDF Forms''],
      estimated_scenarios = [''Filling PDF Forms''],
      quality_issues = quality_checks ''Handles pdf forms'' [''pdf'']\<rparr>"

text \<open>The analysis of a skill without file types whose description opens with
  \<open>When Claude needs\<close>.\<close>

definition form_helper :: analysis where
  "form_helper =
     \<lparr>name = ''form-helper'',
      current_description = ''When Claude needs to work with forms for: (1) Creating forms, (2) Editing forms, (3) Merging forms, or any other form task such as filling'',
      file_types = [],
      action_verbs = [],
      headings = [],
      estimated_scenarios = [],
      quality_issues = []\<rparr>"

text \<open>The analysis of a skill whose name holds an angle bracket.\<close>

definition angle_skill :: analysis where
  "angle_skill =
     \<lparr>name = ''a<b'',
      current_description = [],
      file_types = [],
      action_verbs = [],
      headings = [],
      estimated_scenarios = [],
      quality_issues = quality_checks [] []\<rparr>"

text \<open>The analysis of a skill of which nothing is known but its name.\<close>

definition named_skill :: "string \<Rightarrow> analysis" where
  "named_skill n =
     \<lparr>name = n,
      current_description = [],
      file_types = [],
      action_verbs = [],
      headings = [],
      estimated_scenarios = [],
      quality_issues = quality_checks [] []\<rparr>"

section \<open>Properties of the scorer\<close>

lemma score_length_range: "0 \<le> score_length d \<and> score_length d \<le> 10"
  by (simp add: score_length_def)

lemma score_trigger_range: "0 \<le> score_trigger d \<and> score_trigger d \<le> 20"
  by (simp add: score_trigger_def)

lemma score_enum_range: "0 \<le> score_enum d \<and> score_enum d \<le> 20"
  by (simp add: score_enum_def Let_def)

lemma score_file_types_range: "0 \<le> score_file_types d a \<and> score_file_types d a \<le> 15"
  by (simp add: score_file_types_def)

lemma score_catchall_range: "0 \<le> score_catchall d \<and> score_catchall d \<le> 10"
  by (simp add: score_catchall_def)

lemma score_examples_range: "0 \<le> score_examples d \<and> score_examples d \<le> 10"
  by (simp add: score_examples_def)

lemma score_antipattern_range: "0 \<le> score_antipattern d \<and> score_antipattern d \<le> 15"
  by (simp add: score_antipattern_def)

text \<open>
  Claim C3. \<open>score_description\<close> is a function of the description and the analysis
  alone (equal arguments give the equal integer), its value lies between 0 and 100,
  and the empty description scores 0 whatever the analysis holds.
\<close>

theorem score_description_pure_bounded:
  "(d' = d \<and> file_types a' = file_types a \<longrightarrow> score_description d' a' = score_description d a)
   \<and> 0 \<le> score_description d a \<and> score_description d a \<le> 100
   \<and> score_description [] a = 0"
proof -
  have same: "d' = d \<and> file_types a' = file_types a \<longrightarrow> score_description d' a' = score_description d a"
    by (simp add: score_description_def score_file_types_def)
  have lo: "0 \<le> score_description d a"
    using score_length_range [of d] score_trigger_range [of d] score_enum_range [of d]
      score_file_types_range [of d a] score_catchall_range [of d] score_examples_range [of d]
      score_antipattern_range [of d]
    by (simp add: score_description_def)
  have hi: "score_description d a \<le> 100"
    using score_length_range [of d] score_trigger_range [of d] score_enum_range [of d]
      score_file_types_range [of d a] score_catchall_range [of d] score_examples_range [of d]
      score_antipattern_range [of d]
    by (simp add: score_description_def)
  have emp: "score_description [] a = 0"
    by (simp add: score_description_def)
  from same lo hi emp show ?thesis by blast
qed

theorem score_description_pure_bounded_witness:
  "0 \<le> score_description ''Use when needed (1)'' pdf_filler
   \<and> score_description ''Use when needed (1)'' pdf_filler \<le> 100
   \<and> score_description [] pdf_filler = 0"
  using score_description_pure_bounded [of "''Use when needed (1)''" "''Use when needed (1)''" pdf_filler pdf_filler]
  by simp

section \<open>Properties of the classifier\<close>

text \<open>
  Claim C8. \<open>classify_skill_type\<close> is a total function of the file types and the
  headings. Its rules apply in order, the first that matches wins: a document-format
  file type gives \<open>file_processor\<close>; else one of reference, documentation, api, schema
  in the joined lower-case headings gives \<open>knowledge_reference\<close>; else one of workflow,
  step, process, pipeline there gives \<open>workflow_automation\<close>; else the result is
  \<open>tool_integration\<close>. The result is always one of these four tags.
\<close>

theorem classify_skill_type_first_match:
  fixes a :: analysis
  defines "joined \<equiv> join '' '' (map py_lower (headings a))"
  defines "is_doc \<equiv> (\<exists>ext \<in> set (file_types a). ext \<in> {''docx'', ''pdf'', ''xlsx'', ''pptx'', ''csv''})"
  defines "is_ref \<equiv> (\<exists>kw \<in> {''reference'', ''documentation'', ''api'', ''schema''}. sublist kw joined)"
  defines "is_wf \<equiv> (\<exists>kw \<in> {''workflow'', ''step'', ''process'', ''pipeline''}. sublist kw joined)"
  shows "classify_skill_type a \<in> {''file_processor'', ''knowledge_reference'', ''workflow_automation'', ''tool_integration''}
     \<and> (is_doc \<longrightarrow> classify_skill_type a = ''file_processor'')
     \<and> (\<not> is_doc \<and> is_ref \<longrightarrow> classify_skill_type a = ''knowledge_reference'')
     \<and> (\<not> is_doc \<and> \<not> is_ref \<and> is_wf \<longrightarrow> classify_skill_type a = ''workflow_automation'')
     \<and> (\<not> is_doc \<and> \<not> is_ref \<and> \<not> is_wf \<longrightarrow> classify_skill_type a = ''tool_integration'')"
proof -
  have d: "(file_types a \<noteq> [] \<and> list_ex (\<lambda>ext. ext \<in> set document_formats) (file_types a)) = is_doc"
    unfolding is_doc_def by (auto simp: list_ex_iff document_formats_def)
  have r: "any_kw_in reference_keywords joined = is_ref"
    unfolding is_ref_def by (simp add: any_kw_in_def reference_keywords_def)
  have w: "any_kw_in workflow_heading_keywords joined = is_wf"
    unfolding is_wf_def by (simp add: any_kw_in_def workflow_heading_keywords_def)
  have c: "classify_skill_type a =
      (if is_doc then ''file_processor'' else if is_ref then ''knowledge_reference''
       else if is_wf then ''workflow_automation'' else ''tool_integration'')"
    unfolding classify_skill_type_def Let_def joined_def [symmetric] d r w ..
  show ?thesis unfolding c by simp
qed

theorem classify_skill_type_first_match_witness:
  "classify_skill_type pdf_filler = ''file_processor''"
  using classify_skill_type_first_match [of pdf_filler]
  by (simp add: pdf_filler_def)

section \<open>Properties of the quality checks\<close>

lemma dot_append_eq: "((@) ''.'') = ((#) CHR ''.'')"
  by (rule ext) simp

lemma issue_file_types_head: "issue_file_types fts = CHR ''F'' # tl (issue_file_types fts)"
  by (simp add: issue_file_types_def)

lemma issue_file_types_distinct:
  "issue_file_types fts \<noteq> issue_too_short"
  "issue_file_types fts \<noteq> issue_too_long n"
  "issue_file_types fts \<noteq> issue_angle"
  "issue_file_types fts \<noteq> issue_trigger"
  "issue_file_types fts \<noteq> issue_enum"
  by (simp_all add: issue_file_types_def issue_too_short_def issue_too_long_def issue_angle_def
        issue_trigger_def issue_enum_def)

lemma file_types_issue_reported:
  "(issue_file_types fts \<in> set (quality_checks desc fts))
     = (fts \<noteq> [] \<and> \<not> any_ext_in desc fts)"
  by (auto simp: quality_checks_def issue_file_types_distinct)

text \<open>
  Claim C6, as amended. The issue \<open>File types [...] not in description\<close> is among the
  quality issues if and only if file types were detected and none of them occurs in
  the lower-case description as a run of characters; the test is Python's
  \<open>ext in desc.lower()\<close>. When the issue is reported, every detected type is missing,
  and the message lists exactly the missing types.
\<close>

theorem file_types_issue_iff:
  "(issue_file_types fts \<in> set (quality_checks desc fts))
     = (fts \<noteq> [] \<and> (\<forall>e \<in> set fts. \<not> sublist e (py_lower desc)))
   \<and> (issue_file_types fts \<in> set (quality_checks desc fts) \<longrightarrow>
        issue_file_types fts =
          ''File types '' @ repr_list (filter (\<lambda>e. \<not> sublist e (py_lower desc)) fts)
            @ '' not in description'')"
proof -
  have any: "any_ext_in desc fts = (\<exists>e \<in> set fts. sublist e (py_lower desc))"
    by (simp add: any_ext_in_def list_ex_iff)
  have a: "(issue_file_types fts \<in> set (quality_checks desc fts))
     = (fts \<noteq> [] \<and> (\<forall>e \<in> set fts. \<not> sublist e (py_lower desc)))"
    by (simp add: file_types_issue_reported any)
  have b: "issue_file_types fts =
          ''File types '' @ repr_list (filter (\<lambda>e. \<not> sublist e (py_lower desc)) fts)
            @ '' not in description''"
    if "issue_file_types fts \<in> set (quality_checks desc fts)"
  proof -
    from that a have "\<forall>e \<in> set fts. \<not> sublist e (py_lower desc)" by simp
    then have "filter (\<lambda>e. \<not> sublist e (py_lower desc)) fts = fts"
      by (simp add: filter_id_conv)
    then show ?thesis by (simp add: issue_file_types_def)
  qed
  from a b show ?thesis by blast
qed

theorem file_types_issue_iff_witness:
  "issue_file_types [''pdf''] \<in> set (quality_checks ''Fills forms'' [''pdf''])
   \<and> issue_file_types [''pdf''] = ''File types ['' @ [CHR 0x27] @ ''pdf'' @ [CHR 0x27] @ ''] not in description''
   \<and> issue_file_types [''pdf''] \<notin> set (quality_checks ''Fills PDF forms'' [''pdf''])"
proof -
  have h: "\<not> sublist ''pdf'' (py_lower ''Fills forms'')" by code_simp
  have u: "sublist ''pdf'' (py_lower ''Fills PDF forms'')" by code_simp
  from h u file_types_issue_iff [of "[''pdf'']" "''Fills forms''"]
    file_types_issue_iff [of "[''pdf'']" "''Fills PDF forms''"]
  show ?thesis by (simp add: repr_list_def)
qed

text \<open>
  Claim C6, as stated. With the file type \<open>ts\<close> and the description
  \<open>Formats scripts\<close> no token of the description is the file type, so by the claim
  the issue is reported; but \<open>ts\<close> occurs inside \<open>Formats\<close> and \<open>scripts\<close>, and the
  analyzer reports no issue.
\<close>

theorem file_types_issue_token_counterexample:
  "\<not> spec_appears_as_token ''ts'' (py_lower ''Formats scripts'')
   \<and> sublist ''ts'' (py_lower ''Formats scripts'')
   \<and> issue_file_types [''ts''] \<notin> set (quality_checks ''Formats scripts'' [''ts''])"
  by code_simp

section \<open>Analyzer, scorer and advisor on the file types\<close>

text \<open>
  Claim C10. The analyzer looks for the bare extension (\<open>pdf\<close>), the scorer and the
  advisor for the dotted one (\<open>.pdf\<close>). So whenever a description holds a detected
  extension but no detected extension with its dot, the analyzer raises no file-type
  issue, the scorer gives none of the 15 file-type points, and the advisor asks to add
  the extensions. \<open>Handles pdf forms\<close> with the file type \<open>pdf\<close> is such a description.
\<close>

theorem bare_extension_divergence:
  assumes "file_types a \<noteq> []"
    and "\<exists>e \<in> set (file_types a). sublist e (py_lower d)"
    and "\<forall>e \<in> set (file_types a). \<not> sublist (''.'' @ e) (py_lower d)"
  shows "issue_file_types (file_types a) \<notin> set (quality_checks d (file_types a))
     \<and> score_file_types d a = 0
     \<and> (''ADD file extensions: '' @ dotted 3 (file_types a)) \<in> set (suggest_improvements d g a)"
proof -
  from assms(2) have "any_ext_in d (file_types a)"
    by (simp add: any_ext_in_def list_ex_iff)
  then have q: "issue_file_types (file_types a) \<notin> set (quality_checks d (file_types a))"
    by (simp add: file_types_issue_reported)
  from assms(3) have m: "filter (\<lambda>ext. sublist (''.'' @ ext) (py_lower d)) (file_types a) = []"
    by (simp add: filter_empty_conv)
  with assms(1) have s: "score_file_types d a = 0"
    by (simp add: score_file_types_def mentioned_def)
  from assms(3) have f: "filter (\<lambda>ext. \<not> sublist (''.'' @ ext) (py_lower d)) (file_types a) = file_types a"
    by (simp add: filter_id_conv)
  with assms(1) have "(''ADD file extensions: '' @ dotted 3 (file_types a)) \<in> set (suggest_improvements d g a)"
    by (simp add: suggest_improvements_def dotted_def Let_def dot_append_eq)
  with q s show ?thesis by blast
qed

theorem bare_extension_divergence_witness:
  "sublist ''pdf'' (py_lower ''Handles pdf forms'')
   \<and> \<not> sublist ''.pdf'' (py_lower ''Handles pdf forms'')
   \<and> issue_file_types [''pdf''] \<notin> set (quality_checks ''Handles pdf forms'' [''pdf''])
   \<and> score_file_types ''Handles pdf forms'' pdf_filler = 0
   \<and> ''ADD file extensions: .pdf'' \<in> set (suggest_improvements ''Handles pdf forms'' '''' pdf_filler)"
proof -
  have h1: "sublist ''pdf'' (py_lower ''Handles pdf forms'')" by code_simp
  have h2: "\<not> sublist ''.pdf'' (py_lower ''Handles pdf forms'')" by code_simp
  have ft: "file_types pdf_filler = [''pdf'']" by (simp add: pdf_filler_def)
  from h1 h2 ft bare_extension_divergence [of pdf_filler "''Handles pdf forms''" "''''"]
  show ?thesis by (simp add: dotted_def)
qed

section \<open>Scorer and advisor on the trigger phrase\<close>

text \<open>
  Claim C5. The claim says that the advisor has nothing to suggest for a description
  that passes every check of the scorer. The scorer (and the analyzer) accept
  \<open>when claude needs\<close> as a trigger phrase, the advisor only \<open>use when\<close> and
  \<open>use this skill when\<close>. The description of \<^const>\<open>form_helper\<close> gets the full score
  of 100, and the advisor still asks for a trigger phrase.
\<close>

theorem advisor_rejects_when_claude_needs:
  "score_description (current_description form_helper) form_helper = 100
   \<and> suggest_improvements (current_description form_helper) '''' form_helper
       = [''ADD trigger phrase: '' @ [CHR 0x27] @ ''Use this skill when...'' @ [CHR 0x27]]"
  by code_simp

section \<open>Properties of the file-type extraction\<close>

lemma lower_not_upper: "is_lower c \<Longrightarrow> \<not> is_upper c"
  by (auto simp: is_lower_def is_upper_def lower_letters_def upper_letters_def)

lemma lower_not_latin: "is_lower c \<Longrightarrow> c \<notin> set latin_upper \<and> c \<notin> set latin_lower"
  by (auto simp: is_lower_def lower_letters_def latin_upper_def latin_lower_def)

lemma upper_not_latin: "is_upper c \<Longrightarrow> c \<notin> set latin_upper \<and> c \<notin> set latin_lower"
  by (auto simp: is_upper_def upper_letters_def latin_upper_def latin_lower_def)

lemma lower_char_changes: "lower_char c \<noteq> c \<Longrightarrow> is_upper c \<or> c \<in> set latin_upper"
  by (auto simp: lower_char_def is_upper_def split: option.splits dest!: map_of_SomeD set_zip_leftD)

lemma lower_char_lower: "is_lower c \<Longrightarrow> lower_char c = c"
  using lower_char_changes lower_not_upper lower_not_latin by blast

lemma lower_char_nonword: "\<not> is_word c \<Longrightarrow> lower_char c = c"
  using lower_char_changes by (auto simp: is_word_def is_alpha_def)

lemma py_lower_lower: "list_all is_lower e \<Longrightarrow> py_lower e = e"
  by (induction e) (auto simp: py_lower_def lower_char_lower)







lemma match_alts_in: "match_alts A s = Some (m, r) \<Longrightarrow> py_lower m \<in> set A"
  by (induction A) (auto split: if_splits)



lemma findall_ext_in: "set (map py_lower (findall_ext A s)) \<subseteq> set A"
proof (induction A s rule: findall_ext.induct)
  case (1 alts)
  then show ?case by simp
next
  case (2 alts c cs)
  show ?case
  proof (cases "c = CHR ''.''")
    case False
    with 2 show ?thesis by simp
  next
    case True
    show ?thesis
    proof (cases "match_alts alts cs")
      case None
      with 2 True show ?thesis by simp
    next
      case (Some mr)
      obtain m r where mr: "mr = (m, r)" by (cases mr)
      from Some mr have "py_lower m \<in> set alts" by (auto dest: match_alts_in)
      moreover from "2.IH"(2) [OF True Some mr [symmetric]]
      have "set (map py_lower (findall_ext alts r)) \<subseteq> set alts" .
      ultimately show ?thesis using True Some mr by simp
    qed
  qed
qed




lemma all_extensions_lower: "\<forall>a \<in> set ALL_EXTENSIONS. list_all is_lower a"
  by (simp add: ALL_EXTENSIONS_def is_lower_def lower_letters_def)

lemma all_extensions_split:
  "ALL_EXTENSIONS = PRIMARY_EXTENSIONS @
     [''md'', ''txt'', ''py'', ''js'', ''ts'', ''jsx'', ''tsx'', ''yaml'', ''yml'',
      ''png'', ''jpg'', ''jpeg'', ''gif'', ''svg'']"
  by (simp add: ALL_EXTENSIONS_def PRIMARY_EXTENSIONS_def)

lemma primary_in_all: "set PRIMARY_EXTENSIONS \<subseteq> set ALL_EXTENSIONS"
  by (auto simp: all_extensions_split)






lemma find_file_types_vocabulary: "set (find_file_types s) \<subseteq> set ALL_EXTENSIONS"
  using findall_ext_in [of PRIMARY_EXTENSIONS s] findall_ext_in [of ALL_EXTENSIONS s] primary_in_all
  by (auto simp: find_file_types_def Let_def)




section \<open>Properties of the action-verb detection\<close>

lemma findall_words_lower: "w \<in> set (findall_words s) \<Longrightarrow> w \<noteq> [] \<and> list_all is_lower w"
proof (induction s rule: findall_words.induct)
  case 1
  then show ?case by simp
next
  case (2 c cs)
  show ?case
  proof (cases "is_word c")
    case False
    with 2 show ?thesis by simp
  next
    case True
    with "2.prems" have "w = takeWhile is_word (c # cs) \<and> list_all is_lower w
        \<or> w \<in> set (findall_words (dropWhile is_word cs))"
      by (auto simp: Let_def split: if_splits)
    then show ?thesis
    proof
      assume "w = takeWhile is_word (c # cs) \<and> list_all is_lower w"
      with True show ?thesis by auto
    next
      assume "w \<in> set (findall_words (dropWhile is_word cs))"
      with "2.IH"(1) [OF True refl] show ?thesis by simp
    qed
  qed
qed

lemma counter_add_keys:
  "map fst (counter_add items w) =
     (if w \<in> fst ` set items then map fst items else map fst items @ [w])"
  by (induction items w rule: counter_add.induct) auto

lemma counter_add_count:
  "map_of (counter_add items w) v =
     (if v = w then Some (case map_of items w of None \<Rightarrow> 1 | Some n \<Rightarrow> Suc n)
      else map_of items v)"
  by (induction items w rule: counter_add.induct) auto

lemma Counter_snoc: "Counter (ws @ [w]) = counter_add (Counter ws) w"
  by (simp add: Counter_def)

lemma Counter_keys: "set (map fst (Counter ws)) = set ws \<and> distinct (map fst (Counter ws))"
proof (induction ws rule: rev_induct)
  case Nil
  then show ?case by (simp add: Counter_def)
next
  case (snoc w ws)
  then show ?case by (auto simp: Counter_snoc counter_add_keys)
qed

lemma Counter_count:
  "map_of (Counter ws) v = (if v \<in> set ws then Some (count_list ws v) else None)"
proof (induction ws arbitrary: v rule: rev_induct)
  case Nil
  then show ?case by (simp add: Counter_def)
next
  case (snoc w ws)
  then show ?case by (simp add: Counter_snoc counter_add_count)
qed

lemma first_index_snoc_old: "a \<in> set ws \<Longrightarrow> first_index (ws @ [w]) a = first_index ws a"
  by (induction ws) (auto simp: first_index_def)

lemma first_index_snoc_new: "w \<notin> set ws \<Longrightarrow> first_index (ws @ [w]) w = length ws"
  by (induction ws) (auto simp: first_index_def)

lemma first_index_less: "a \<in> set ws \<Longrightarrow> first_index ws a < length ws"
  by (induction ws) (auto simp: first_index_def)

lemma Counter_order:
  "sorted_wrt (\<lambda>a b. first_index ws a < first_index ws b) (map fst (Counter ws))"
proof (induction ws rule: rev_induct)
  case Nil
  then show ?case by (simp add: Counter_def)
next
  case (snoc w ws)
  let ?K = "map fst (Counter ws)"
  from Counter_keys [of ws] have K: "fst ` set (Counter ws) = set ws" by simp
  have old: "sorted_wrt (\<lambda>a b. first_index (ws @ [w]) a < first_index (ws @ [w]) b) ?K"
    using snoc
    by (rule sorted_wrt_mono_rel [rotated]) (simp add: K first_index_snoc_old)
  show ?case
  proof (cases "w \<in> set ws")
    case True
    with old K show ?thesis by (simp add: Counter_snoc counter_add_keys)
  next
    case False
    have "\<forall>a \<in> set ?K. first_index (ws @ [w]) a < first_index (ws @ [w]) w"
      using False K by (simp add: first_index_snoc_old first_index_snoc_new first_index_less)
    with old False K show ?thesis
      by (simp add: Counter_snoc counter_add_keys sorted_wrt_append)
  qed
qed

lemma Counter_items: "Counter ws = map (\<lambda>v. (v, count_list ws v)) (map fst (Counter ws))"
proof -
  have "p = (fst p, count_list ws (fst p))" if "p \<in> set (Counter ws)" for p
  proof -
    from Counter_keys [of ws] have "distinct (map fst (Counter ws))" by blast
    moreover from that have "(fst p, snd p) \<in> set (Counter ws)" by simp
    ultimately have "map_of (Counter ws) (fst p) = Some (snd p)"
      by (rule map_of_is_SomeI)
    with Counter_count [of ws "fst p"] have "snd p = count_list ws (fst p)"
      by (simp split: if_splits)
    then show ?thesis by (simp add: prod_eq_iff)
  qed
  then have "map (\<lambda>p. (fst p, count_list ws (fst p))) (Counter ws) = Counter ws"
    by (simp add: map_idI)
  then show ?thesis by (simp add: comp_def)
qed

lemma sorted_wrt_insort_key:
  assumes "sorted_wrt R ys" and "sorted (map f ys)"
    and "\<forall>y \<in> set ys. f y < f x \<longrightarrow> R y x"
    and "\<forall>y \<in> set ys. f x \<le> f y \<longrightarrow> R x y"
  shows "sorted_wrt R (insort_key f x ys)"
  using assms
proof (induction ys)
  case Nil
  then show ?case by simp
next
  case (Cons y ys)
  show ?case
  proof (cases "f x \<le> f y")
    case True
    with Cons.prems(2) have "\<forall>z \<in> set (y # ys). f x \<le> f z" by auto
    with Cons.prems True show ?thesis by auto
  next
    case False
    with Cons show ?thesis by (auto simp: set_insort_key)
  qed
qed

lemma sort_key_stable_wrt:
  fixes f :: "'a \<Rightarrow> 'b::linorder"
  assumes "sorted_wrt B xs"
  shows "sorted_wrt (\<lambda>a b. f a < f b \<or> (f a = f b \<and> B a b)) (sort_key f xs)"
  using assms
proof (induction xs)
  case Nil
  then show ?case by simp
next
  case (Cons x xs)
  let ?R = "\<lambda>a b. f a < f b \<or> (f a = f b \<and> B a b)"
  from Cons have ih: "sorted_wrt ?R (sort_key f xs)" by simp
  from Cons.prems have b: "\<forall>y \<in> set xs. B x y" by simp
  have "sorted_wrt ?R (insort_key f x (sort_key f xs))"
  proof (rule sorted_wrt_insort_key [OF ih])
    show "sorted (map f (sort_key f xs))" by simp
    show "\<forall>y \<in> set (sort_key f xs). f y < f x \<longrightarrow> ?R y x" by simp
    show "\<forall>y \<in> set (sort_key f xs). f x \<le> f y \<longrightarrow> ?R x y" using b by auto
  qed
  then show ?case by simp
qed

lemma ranked_keys:
  "sorted_wrt (ranks_before ws) (map fst (sort_key (\<lambda>(w, k). - int k) (Counter ws)))"
proof -
  let ?f = "\<lambda>(w, k). - int k"
  let ?B = "\<lambda>p q. first_index ws (fst p) < first_index ws (fst q)"
  have "sorted_wrt ?B (Counter ws)"
    using Counter_order [of ws] by (simp add: sorted_wrt_map)
  then have s: "sorted_wrt (\<lambda>a b. ?f a < ?f b \<or> (?f a = ?f b \<and> ?B a b)) (sort_key ?f (Counter ws))"
    by (rule sort_key_stable_wrt)
  have c: "snd p = count_list ws (fst p)" if "p \<in> set (Counter ws)" for p
  proof -
    from that have "p \<in> set (map (\<lambda>v. (v, count_list ws v)) (map fst (Counter ws)))"
      using Counter_items [of ws] by simp
    then show ?thesis by auto
  qed
  have "sorted_wrt (\<lambda>p q. ranks_before ws (fst p) (fst q)) (sort_key ?f (Counter ws))"
    using s
  proof (rule sorted_wrt_mono_rel [rotated])
    fix p q
    assume p: "p \<in> set (sort_key ?f (Counter ws))" and q: "q \<in> set (sort_key ?f (Counter ws))"
      and r: "?f p < ?f q \<or> (?f p = ?f q \<and> ?B p q)"
    from p q c have "snd p = count_list ws (fst p)" "snd q = count_list ws (fst q)" by simp_all
    with r show "ranks_before ws (fst p) (fst q)"
      by (auto simp: ranks_before_def split_beta)
  qed
  then show ?thesis by (simp add: sorted_wrt_map)
qed

text \<open>
  Claim C7. \<open>find_action_verbs\<close> splits the lower-case text into words over \<open>a-z\<close>,
  keeps those of the vocabulary \<open>ACTION_VERBS\<close>, and returns at most ten of them, each
  once, ranked by falling frequency, verbs of equal frequency in the order in which
  they are first met in the text; a verb that is left out ranks after all ten that are
  returned.
\<close>

theorem find_action_verbs_ranked:
  fixes content :: string
  defines "words \<equiv> findall_words (py_lower content)"
  defines "found \<equiv> filter (\<lambda>w. w \<in> set ACTION_VERBS) words"
  defines "verbs \<equiv> find_action_verbs content"
  shows "(\<forall>w \<in> set words. w \<noteq> [] \<and> list_all is_lower w)
     \<and> set verbs \<subseteq> set found \<and> distinct verbs \<and> length verbs \<le> 10
     \<and> sorted_wrt (ranks_before found) verbs
     \<and> (\<forall>v \<in> set found. v \<notin> set verbs \<longrightarrow>
          length verbs = 10 \<and> (\<forall>w \<in> set verbs. ranks_before found w v))"
proof -
  let ?L = "map fst (sort_key (\<lambda>(w, k). - int k) (Counter found))"
  have verbs: "verbs = take 10 ?L"
    by (simp add: verbs_def find_action_verbs_def most_common_def Let_def found_def words_def take_map)
  have setL: "set ?L = set found" and distL: "distinct ?L"
    using Counter_keys [of found] by (simp_all add: distinct_map inj_on_def)
  have sortedL: "sorted_wrt (ranks_before found) ?L" by (rule ranked_keys)
  have tok: "\<forall>w \<in> set words. w \<noteq> [] \<and> list_all is_lower w"
    unfolding words_def using findall_words_lower by blast
  have sub: "set verbs \<subseteq> set found"
    unfolding verbs using setL set_take_subset by fastforce
  have dist: "distinct verbs" unfolding verbs using distL by simp
  have len: "length verbs \<le> 10" unfolding verbs by simp
  have srt: "sorted_wrt (ranks_before found) verbs"
    unfolding verbs using sortedL by (rule sorted_wrt_take)
  have top: "length verbs = 10 \<and> (\<forall>w \<in> set verbs. ranks_before found w v)"
    if v: "v \<in> set found" "v \<notin> set verbs" for v
  proof -
    have app: "?L = take 10 ?L @ drop 10 ?L" by simp
    from v setL have "v \<in> set (take 10 ?L) \<union> set (drop 10 ?L)"
      by (metis app set_append)
    with v(2) have d: "v \<in> set (drop 10 ?L)" by (simp add: verbs)
    then have "drop 10 ?L \<noteq> []" by auto
    then have l: "length verbs = 10" by (simp add: verbs)
    from sortedL have "sorted_wrt (ranks_before found) (take 10 ?L @ drop 10 ?L)" by simp
    with d have "\<forall>w \<in> set (take 10 ?L). ranks_before found w v"
      by (simp only: sorted_wrt_append) blast
    with l show ?thesis by (simp add: verbs)
  qed
  from tok sub dist len srt top show ?thesis by blast
qed

theorem find_action_verbs_ranked_witness:
  "find_action_verbs ''Read it. fill, Fill and read; extract create''
     = [''read'', ''fill'', ''extract'', ''create'']
   \<and> sorted_wrt (ranks_before (filter (\<lambda>w. w \<in> set ACTION_VERBS)
        (findall_words (py_lower ''Read it. fill, Fill and read; extract create''))))
        [''read'', ''fill'', ''extract'', ''create'']"
proof -
  have e: "find_action_verbs ''Read it. fill, Fill and read; extract create''
     = [''read'', ''fill'', ''extract'', ''create'']"
    by code_simp
  from find_action_verbs_ranked [of "''Read it. fill, Fill and read; extract create''"]
  show ?thesis unfolding e by blast
qed

section \<open>Angle brackets in the generated description\<close>

lemma has_angle_simps [simp]:
  "has_angle [] = False"
  "has_angle (c # s) = (c = CHR ''<'' \<or> c = CHR ''>'' \<or> has_angle s)"
  "has_angle (s @ t) = (has_angle s \<or> has_angle t)"
  by (auto simp: has_angle_def)

lemma has_angle_subset: "set s \<subseteq> set t \<Longrightarrow> has_angle s \<Longrightarrow> has_angle t"
  by (auto simp: has_angle_def)

lemma has_angle_subset_space: "set s \<subseteq> insert (CHR '' '') (set t) \<Longrightarrow> has_angle s \<Longrightarrow> has_angle t"
  by (auto simp: has_angle_def)

lemma lower_char_result:
  "lower_char c \<noteq> c \<Longrightarrow> is_lower (lower_char c) \<or> lower_char c \<in> set latin_lower"
  by (auto simp: lower_char_def is_lower_def split: option.splits dest!: map_of_SomeD set_zip_rightD)

lemma upper_char_result:
  "upper_char c \<noteq> c \<Longrightarrow> is_upper (upper_char c) \<or> upper_char c \<in> set latin_upper"
  by (auto simp: upper_char_def is_upper_def split: option.splits dest!: map_of_SomeD set_zip_rightD)

lemma upper_char_changes: "upper_char c \<noteq> c \<Longrightarrow> is_lower c \<or> c \<in> set latin_lower"
  by (auto simp: upper_char_def is_lower_def split: option.splits dest!: map_of_SomeD set_zip_leftD)

text \<open>A character that is no letter with a case partner is the image of itself only.\<close>

lemma lower_char_fixed:
  assumes "\<not> is_upper x" and "\<not> is_lower x" and "x \<notin> set latin_upper" and "x \<notin> set latin_lower"
  shows "(lower_char c = x) = (c = x)"
proof
  assume l: "lower_char c = x"
  show "c = x"
  proof (rule ccontr)
    assume "c \<noteq> x"
    with l have "lower_char c \<noteq> c" by simp
    then have "is_lower (lower_char c) \<or> lower_char c \<in> set latin_lower"
      by (rule lower_char_result)
    with l assms show False by simp
  qed
next
  assume "c = x"
  with assms lower_char_changes [of x] show "lower_char c = x" by auto
qed

lemma upper_char_fixed:
  assumes "\<not> is_upper x" and "\<not> is_lower x" and "x \<notin> set latin_upper" and "x \<notin> set latin_lower"
  shows "(upper_char c = x) = (c = x)"
proof
  assume l: "upper_char c = x"
  show "c = x"
  proof (rule ccontr)
    assume "c \<noteq> x"
    with l have "upper_char c \<noteq> c" by simp
    then have "is_upper (upper_char c) \<or> upper_char c \<in> set latin_upper"
      by (rule upper_char_result)
    with l assms show False by simp
  qed
next
  assume "c = x"
  with assms upper_char_changes [of x] show "upper_char c = x" by auto
qed

lemma special_no_case_letter:
  "\<not> is_upper (CHR ''<'')" "\<not> is_lower (CHR ''<'')"
  "CHR ''<'' \<notin> set latin_upper" "CHR ''<'' \<notin> set latin_lower"
  "\<not> is_upper (CHR ''>'')" "\<not> is_lower (CHR ''>'')"
  "CHR ''>'' \<notin> set latin_upper" "CHR ''>'' \<notin> set latin_lower"
  "\<not> is_upper (CHR ''('')" "\<not> is_lower (CHR ''('')"
  "CHR ''('' \<notin> set latin_upper" "CHR ''('' \<notin> set latin_lower"
  by (simp_all add: is_lower_def is_upper_def lower_letters_def
      upper_letters_def latin_upper_def latin_lower_def)

lemma lower_char_angle: "(lower_char c = CHR ''<'' \<or> lower_char c = CHR ''>'') = (c = CHR ''<'' \<or> c = CHR ''>'')"
  by (simp add: lower_char_fixed special_no_case_letter)

lemma upper_char_angle: "(upper_char c = CHR ''<'' \<or> upper_char c = CHR ''>'') = (c = CHR ''<'' \<or> c = CHR ''>'')"
  by (simp add: upper_char_fixed special_no_case_letter)

lemma lower_char_angle_or:
  "(lower_char c = CHR ''<'' \<or> lower_char c = CHR ''>'' \<or> Q) = (c = CHR ''<'' \<or> c = CHR ''>'' \<or> Q)"
  using lower_char_angle [of c] by blast

lemma upper_char_angle_or:
  "(upper_char c = CHR ''<'' \<or> upper_char c = CHR ''>'' \<or> Q) = (c = CHR ''<'' \<or> c = CHR ''>'' \<or> Q)"
  using upper_char_angle [of c] by blast

lemma has_angle_map_lower: "has_angle (map lower_char s) = has_angle s"
  by (induction s) (simp_all add: lower_char_angle_or)

lemma has_angle_py_lower: "has_angle (py_lower s) = has_angle s"
  by (simp add: py_lower_def has_angle_map_lower)

lemma has_angle_title_from: "has_angle (title_from b s) = has_angle s"
  by (induction b s rule: title_from.induct)
     (simp_all add: lower_char_angle_or upper_char_angle_or)

lemma has_angle_py_title: "has_angle (py_title s) = has_angle s"
  by (simp add: py_title_def has_angle_title_from)

lemma has_angle_py_capitalize: "has_angle (py_capitalize s) = has_angle s"
  by (cases s) (simp_all add: py_capitalize_def has_angle_map_lower upper_char_angle_or)

lemma set_rstrip_chars: "set (rstrip_chars P s) \<subseteq> set s"
proof
  fix x
  assume "x \<in> set (rstrip_chars P s)"
  then have "x \<in> set (dropWhile P (rev s))" by (simp add: rstrip_chars_def)
  then have "x \<in> set (rev s)" by (rule set_dropWhileD)
  then show "x \<in> set s" by simp
qed

lemma set_py_strip: "set (py_strip s) \<subseteq> set s"
proof -
  have "set (py_strip s) \<subseteq> set (dropWhile is_space s)"
    unfolding py_strip_def lstrip_chars_def by (rule set_rstrip_chars)
  also have "\<dots> \<subseteq> set s" by (auto dest: set_dropWhileD)
  finally show ?thesis .
qed

lemma has_angle_rstrip_chars: "has_angle (rstrip_chars P s) \<Longrightarrow> has_angle s"
  using set_rstrip_chars by (rule has_angle_subset)

lemma has_angle_py_strip: "has_angle (py_strip s) \<Longrightarrow> has_angle s"
  using set_py_strip by (rule has_angle_subset)

lemma has_angle_readable_name: "has_angle (readable_name n) \<Longrightarrow> has_angle n"
  by (auto simp: readable_name_def replace_char_def has_angle_def split: if_splits)

lemma has_angle_join:
  "has_angle (join sep xs) \<Longrightarrow> has_angle sep \<or> (\<exists>x \<in> set xs. has_angle x)"
  by (induction sep xs rule: join.induct) auto

lemma has_angle_take: "has_angle (take n s) \<Longrightarrow> has_angle s"
  by (rule has_angle_subset [rotated]) (auto dest: in_set_takeD)

lemma digit_char_no_angle: "d < 10 \<Longrightarrow> \<not> has_angle [digit_char d]"
proof -
  assume "d < 10"
  then have "d < length digit_chars" by (simp add: digit_chars_def)
  then have "digit_char d \<in> set digit_chars"
    unfolding digit_char_def by (rule nth_mem)
  then show ?thesis by (auto simp: digit_chars_def)
qed

lemma str_nat_no_angle: "\<not> has_angle (str_nat n)"
proof (induction n rule: str_nat.induct)
  case (1 n)
  show ?case
  proof (cases "n < 10")
    case True
    then show ?thesis using digit_char_no_angle [of n] by (subst str_nat.simps) simp
  next
    case False
    with 1 digit_char_no_angle [of "n mod 10"] show ?thesis
      by (subst str_nat.simps) simp
  qed
qed

lemma suffix_dropWhile_trans: "suffix r (dropWhile P t) \<Longrightarrow> suffix r t"
  using suffix_dropWhile suffix_order.trans by blast

lemma match_enum_suffix: "match_enum s = Some r \<Longrightarrow> suffix r s"
proof -
  assume m: "match_enum s = Some r"
  then obtain c t where s: "s = c # t"
    by (cases s) (auto simp: match_enum_def)
  from m s obtain d where "dropWhile is_digit t = d # r"
    by (auto simp: match_enum_def split: if_splits list.splits)
  then have "suffix r (dropWhile is_digit t)" by (simp add: suffix_ConsI)
  then have "suffix r t" by (rule suffix_dropWhile_trans)
  with s show ?thesis by (simp add: suffix_ConsI)
qed

lemma match_examples_suffix: "match_examples s = Some r \<Longrightarrow> suffix r s"
proof -
  assume m: "match_examples s = Some r"
  let ?t = "drop (length ''(examples include'') s"
  from m obtain d where "dropWhile (\<lambda>c. c \<noteq> CHR '')'') ?t = d # r"
    by (auto simp: match_examples_def Let_def split: if_splits list.splits)
  then have "suffix r (dropWhile (\<lambda>c. c \<noteq> CHR '')'') ?t)" by (simp add: suffix_ConsI)
  then have "suffix r ?t" by (rule suffix_dropWhile_trans)
  moreover have "suffix ?t s" by (rule suffix_drop)
  ultimately show ?thesis by (rule suffix_order.trans)
qed

lemma match_scenario_suffix: "match_scenario s = Some r \<Longrightarrow> suffix r s"
proof -
  assume m: "match_scenario s = Some r"
  then obtain t where t: "match_enum s = Some t"
    by (auto simp: match_scenario_def split: option.splits)
  let ?u = "dropWhile (\<lambda>c. c \<noteq> CHR '','') t"
  let ?v = "case ?u of [] \<Rightarrow> [] | d # rest \<Rightarrow> rest"
  from m t have r: "r = dropWhile is_space ?v"
    by (simp add: match_scenario_def split: if_splits)
  have "suffix r ?v" unfolding r by (rule suffix_dropWhile)
  moreover have "suffix ?v ?u" by (simp add: suffix_ConsI split: list.split)
  moreover have "suffix ?u t" by (rule suffix_dropWhile)
  moreover have "suffix t s" using t by (rule match_enum_suffix)
  ultimately show ?thesis by (meson suffix_order.trans)
qed

lemma set_sub_examples: "set (sub_examples s) \<subseteq> set s"
proof (induction s rule: sub_examples.induct)
  case 1
  then show ?case by simp
next
  case (2 c cs)
  show ?case
  proof (cases "match_examples (c # cs)")
    case None
    with 2 show ?thesis by auto
  next
    case (Some r)
    then have "set r \<subseteq> set (c # cs)" by (intro set_mono_suffix match_examples_suffix)
    with 2 Some show ?thesis by auto
  qed
qed

lemma set_sub_scenarios: "set (sub_scenarios n s) \<subseteq> set s"
proof (induction n s rule: sub_scenarios.induct)
  case (1 s)
  then show ?case by simp
next
  case (2 n)
  then show ?case by simp
next
  case (3 n c cs)
  show ?case
  proof (cases "match_scenario (c # cs)")
    case None
    with 3 show ?thesis by auto
  next
    case (Some r)
    then have "set r \<subseteq> set (c # cs)" by (intro set_mono_suffix match_scenario_suffix)
    with 3 Some show ?thesis by auto
  qed
qed

lemma set_collapse_ws: "set (collapse_ws s) \<subseteq> insert (CHR '' '') (set s)"
proof (induction s rule: collapse_ws.induct)
  case 1
  then show ?case by simp
next
  case (2 c cs)
  show ?case
  proof (cases "is_space c")
    case True
    have "set (dropWhile is_space cs) \<subseteq> set cs" by (auto dest: set_dropWhileD)
    with 2 True show ?thesis by auto
  next
    case False
    with 2 show ?thesis by auto
  qed
qed

lemma has_angle_post_process: "has_angle (post_process d) \<Longrightarrow> has_angle d"
proof -
  assume h: "has_angle (post_process d)"
  define d1 where "d1 = (if length d > MAX_DESCRIPTION_LENGTH then py_strip (sub_examples d) else d)"
  define d2 where "d2 = (if length d1 > MAX_DESCRIPTION_LENGTH then sub_scenarios 2 d1 else d1)"
  have pp: "post_process d = rstrip_chars (\<lambda>c. c = CHR '','' \<or> c = CHR ''.'') (py_strip (collapse_ws d2))"
    by (simp add: post_process_def Let_def d1_def d2_def)
  from h have "has_angle (py_strip (collapse_ws d2))"
    unfolding pp by (rule has_angle_rstrip_chars)
  then have "has_angle (collapse_ws d2)" by (rule has_angle_py_strip)
  with set_collapse_ws [of d2] have "has_angle d2" by (rule has_angle_subset_space)
  with set_sub_scenarios [of 2 d1] have "has_angle d1"
    by (auto simp: d2_def split: if_splits intro: has_angle_subset)
  with set_sub_examples [of d] show ?thesis
    by (auto simp: d1_def split: if_splits dest!: has_angle_py_strip intro: has_angle_subset)
qed

lemma verb_phrase_no_angle:
  assumes "\<forall>v \<in> set vs. \<not> has_angle v"
  shows "\<not> has_angle (verb_phrase vs)"
proof (cases "vs = []")
  case True
  then show ?thesis by (simp add: verb_phrase_def)
next
  case False
  then have "hd vs \<in> set vs" and "last vs \<in> set vs" by simp_all
  with assms have hl: "\<not> has_angle (hd vs)" "\<not> has_angle (last vs)" by blast+
  have "\<not> has_angle (join '', '' (butlast vs))"
  proof
    assume "has_angle (join '', '' (butlast vs))"
    then have "\<exists>x \<in> set (butlast vs). has_angle x"
      by (auto dest: has_angle_join)
    with assms show False by (auto dest: in_set_butlastD)
  qed
  with hl False show ?thesis
    by (simp add: verb_phrase_def has_angle_py_title)
qed

lemma dotted_no_angle:
  assumes "\<forall>e \<in> set fts. \<not> has_angle e"
  shows "\<not> has_angle (dotted k fts)"
proof
  assume "has_angle (dotted k fts)"
  then have "has_angle '', '' \<or> (\<exists>x \<in> set (map (\<lambda>ext. ''.'' @ ext) (take k fts)). has_angle x)"
    unfolding dotted_def by (rule has_angle_join)
  then obtain e where "e \<in> set (take k fts)" and "has_angle e" by auto
  with assms show False by (auto dest: in_set_takeD)
qed

lemma clean_scenario_angle: "has_angle (clean_scenario s) \<Longrightarrow> has_angle s"
  by (auto simp: clean_scenario_def Let_def split: if_splits
      dest!: has_angle_take has_angle_rstrip_chars has_angle_py_strip)

lemma enumerated_no_angle:
  assumes "\<forall>x \<in> set xs. \<not> has_angle (f x)"
  shows "\<not> has_angle (join '', '' (map (\<lambda>(i, x). ''('' @ str_nat i @ '') '' @ f x) (enumerate1 xs)))"
proof
  assume "has_angle (join '', '' (map (\<lambda>(i, x). ''('' @ str_nat i @ '') '' @ f x) (enumerate1 xs)))"
  then have "has_angle '', '' \<or> (\<exists>y \<in> set (map (\<lambda>(i, x). ''('' @ str_nat i @ '') '' @ f x) (enumerate1 xs)). has_angle y)"
    by (rule has_angle_join)
  then obtain i x where ix: "(i, x) \<in> set (enumerate1 xs)"
    and "has_angle (''('' @ str_nat i @ '') '' @ f x)" by auto
  then have "has_angle (f x)" by (simp add: str_nat_no_angle)
  moreover from ix have "x \<in> set xs" unfolding enumerate1_def by (rule set_zip_rightD)
  ultimately show False using assms by blast
qed

lemma generate_scenarios_no_angle:
  assumes "\<forall>v \<in> set (action_verbs a). \<not> has_angle v"
    and "\<forall>s \<in> set (estimated_scenarios a). \<not> has_angle s"
  shows "\<not> has_angle (generate_scenarios a)"
proof -
  have s: "\<forall>x \<in> set (take 4 (estimated_scenarios a)). \<not> has_angle (clean_scenario x)"
    using assms(2) by (auto dest: in_set_takeD clean_scenario_angle)
  have v: "\<forall>x \<in> set (take 4 (action_verbs a)). \<not> has_angle (py_capitalize x @ ''ing content'')"
    using assms(1) by (auto simp: has_angle_py_capitalize dest: in_set_takeD)
  from enumerated_no_angle [OF s] enumerated_no_angle [OF v] show ?thesis
    by (simp add: generate_scenarios_def)
qed

lemma generate_examples_no_angle:
  assumes "\<forall>h \<in> set (headings a). \<not> has_angle h"
    and "\<forall>e \<in> set (file_types a). \<not> has_angle e"
  shows "\<not> has_angle (generate_examples a)"
proof -
  let ?ex = "map (\<lambda>h. py_strip (py_lower h))
               (filter (\<lambda>h. any_kw_in example_keywords (py_lower h)) (take 6 (headings a)))"
  have "\<not> has_angle (join '', '' (take 4 ?ex))"
  proof
    assume "has_angle (join '', '' (take 4 ?ex))"
    then have "\<exists>x \<in> set (take 4 ?ex). has_angle x" by (auto dest: has_angle_join)
    then obtain x where "x \<in> set ?ex" and x: "has_angle x" by (auto dest: in_set_takeD)
    then obtain h where "h \<in> set (take 6 (headings a))" and "x = py_strip (py_lower h)" by auto
    with x have "h \<in> set (headings a)" and "has_angle h"
      by (auto dest: in_set_takeD has_angle_py_strip simp: has_angle_py_lower)
    with assms(1) show False by blast
  qed
  moreover have "\<not> has_angle (hd (file_types a))" if "file_types a \<noteq> []"
    using that assms(2) by simp
  ultimately show ?thesis
    by (simp add: generate_examples_def Let_def)
qed

lemma fill_template_no_angle:
  assumes "\<not> has_angle (name a)"
    and "\<forall>h \<in> set (headings a). \<not> has_angle h"
    and "\<forall>v \<in> set (action_verbs a). \<not> has_angle v"
    and "\<forall>e \<in> set (file_types a). \<not> has_angle e"
    and "\<forall>s \<in> set (estimated_scenarios a). \<not> has_angle s"
  shows "\<not> has_angle (fill_template a)"
proof -
  from assms(1) have n: "\<not> has_angle (readable_name (name a))"
    by (auto dest: has_angle_readable_name)
  have "\<forall>v \<in> set (take 4 (action_verbs a)). \<not> has_angle v"
    using assms(3) by (auto dest: in_set_takeD)
  then have vp: "\<not> has_angle (verb_phrase (take 4 (action_verbs a)))"
    by (rule verb_phrase_no_angle)
  note d = dotted_no_angle [OF assms(4), of 3]
  from vp d n have cap: "\<not> has_angle (generate_capability_phrase a)"
    by (simp add: generate_capability_phrase_def Let_def)
  from d n have trig: "\<not> has_angle (generate_trigger_context a)"
    by (simp add: generate_trigger_context_def)
  from n have catch: "\<not> has_angle (generate_catchall a)"
    by (simp add: generate_catchall_def)
  note scen = generate_scenarios_no_angle [OF assms(3) assms(5)]
  note ex = generate_examples_no_angle [OF assms(2) assms(4)]
  from cap trig catch scen ex show ?thesis
    by (simp add: fill_template_def Let_def)
qed

text \<open>
  Claim C2, as amended. The generator copies the name, the headings, the verbs, the
  file types and the scenario texts into the description and removes no character
  class from them. If none of these inputs holds \<open><\<close> or \<open>>\<close>, neither does the
  generated description: the templates hold none, the case conversions produce none,
  and the post-processing only deletes text or puts a space for a run of white space.
\<close>

theorem generated_angle_brackets_from_input:
  assumes "\<not> has_angle (name a)"
    and "\<forall>h \<in> set (headings a). \<not> has_angle h"
    and "\<forall>v \<in> set (action_verbs a). \<not> has_angle v"
    and "\<forall>e \<in> set (file_types a). \<not> has_angle e"
    and "\<forall>s \<in> set (estimated_scenarios a). \<not> has_angle s"
  shows "\<not> has_angle (generate_optimized_description a)"
  using fill_template_no_angle [OF assms]
  by (auto simp: generate_optimized_description_def dest: has_angle_post_process)

theorem generated_angle_brackets_from_input_witness:
  "\<not> has_angle (generate_optimized_description pdf_filler)"
proof -
  have "\<not> has_angle (name pdf_filler)"
    and "\<forall>h \<in> set (headings pdf_filler). \<not> has_angle h"
    and "\<forall>v \<in> set (action_verbs pdf_filler). \<not> has_angle v"
    and "\<forall>e \<in> set (file_types pdf_filler). \<not> has_angle e"
    and "\<forall>s \<in> set (estimated_scenarios pdf_filler). \<not> has_angle s"
    by (simp_all add: pdf_filler_def)
  then show ?thesis by (rule generated_angle_brackets_from_input)
qed

text \<open>
  Claim C2, as stated. For the skill name \<open>a<b\<close> the generated description holds the
  angle bracket of the name.
\<close>

theorem generated_angle_brackets_counterexample:
  "has_angle (generate_optimized_description angle_skill)"
  by code_simp

section \<open>The length of the generated description\<close>

lemma sub_examples_plain:
  "CHR ''('' \<notin> set p \<Longrightarrow> sub_examples (p @ q) = p @ sub_examples q"
  by (induction p) (auto simp: match_examples_def)

lemma sub_scenarios_plain:
  "CHR ''('' \<notin> set p \<Longrightarrow> sub_scenarios n (p @ q) = p @ sub_scenarios n q"
proof (induction p)
  case Nil
  then show ?case by simp
next
  case (Cons c p)
  then have "match_scenario (c # p @ q) = None"
    by (auto simp: match_scenario_def match_enum_def)
  with Cons show ?case by (cases n) simp_all
qed

lemma collapse_ws_plain:
  "\<forall>c \<in> set p. \<not> is_space c \<Longrightarrow> collapse_ws (p @ q) = p @ collapse_ws q"
  by (induction p) auto

lemma rstrip_chars_id: "s \<noteq> [] \<Longrightarrow> \<not> P (last s) \<Longrightarrow> rstrip_chars P s = s"
  by (cases s rule: rev_cases) (simp_all add: rstrip_chars_def)

lemma sub_examples_step: "c \<noteq> CHR ''('' \<Longrightarrow> sub_examples (c # cs) = c # sub_examples cs"
  using sub_examples_plain [of "[c]" cs] by simp

lemma sub_examples_paren: "c \<noteq> CHR ''e'' \<Longrightarrow> sub_examples (CHR ''('' # c # cs) = CHR ''('' # sub_examples (c # cs)"
  by (simp add: match_examples_def)

lemma sub_scenarios_step:
  "c \<noteq> CHR ''('' \<Longrightarrow> sub_scenarios (Suc n) (c # cs) = c # sub_scenarios (Suc n) cs"
  using sub_scenarios_plain [of "[c]" "Suc n" cs] by simp

lemma collapse_ws_step: "\<not> is_space c \<Longrightarrow> collapse_ws (c # cs) = c # collapse_ws cs"
  by simp

lemma collapse_ws_space:
  "\<not> is_space c \<Longrightarrow> collapse_ws (CHR '' '' # c # cs) = CHR '' '' # collapse_ws (c # cs)"
  by (simp add: is_space_def)

lemma collapse_ws_space_plain:
  assumes "p \<noteq> []" and "\<forall>c \<in> set p. \<not> is_space c"
  shows "collapse_ws (CHR '' '' # p @ q) = CHR '' '' # p @ collapse_ws q"
proof -
  from assms obtain c t where p: "p = c # t" and c: "\<not> is_space c" by (cases p) auto
  then have "dropWhile is_space (p @ q) = p @ q" by simp
  then show ?thesis using collapse_ws_plain [OF assms(2)] by (simp add: is_space_def)
qed

lemma lower_not_special:
  assumes "is_lower c"
  shows "c \<noteq> CHR ''(''" "\<not> is_space c" "c \<noteq> CHR ''-''" "c \<noteq> CHR ''_''"
  using assms by (auto simp: is_lower_def lower_letters_def is_space_def)

lemma fill_template_named:
  assumes "list_all is_lower n"
  shows "fill_template (named_skill n) =
   ''Processing and manipulation for '' @ n
   @ ''. Use this skill when handling '' @ n
   @ '' tasks for: (1) Processing, (2) Analyzing, (3) Generating output, or any other ''
   @ n @ '' task''"
proof -
  from assms have "\<forall>c \<in> set n. c \<noteq> CHR ''-'' \<and> c \<noteq> CHR ''_''"
    by (auto simp: list_all_iff dest: lower_not_special)
  then have "readable_name n = n"
    by (simp add: readable_name_def replace_char_def map_idI)
  then show ?thesis
    by (simp add: fill_template_def named_skill_def classify_skill_type_def any_kw_in_def
      reference_keywords_def workflow_heading_keywords_def generate_capability_phrase_def
      verb_phrase_def generate_scenarios_def
      generate_trigger_context_def generate_catchall_def generate_examples_def)
qed

lemma post_process_named:
  assumes low: "list_all is_lower n" and len: "300 \<le> length n"
  shows "post_process (''Processing and manipulation for '' @ n
   @ ''. Use this skill when handling '' @ n
   @ '' tasks for: (1) Processing, (2) Analyzing, (3) Generating output, or any other ''
   @ n @ '' task'')
   = ''Processing and manipulation for '' @ n
   @ ''. Use this skill when handling '' @ n
   @ '' tasks for: (3) Generating output, or any other ''
   @ n @ '' task''"
proof -
  let ?d = "''Processing and manipulation for '' @ n
   @ ''. Use this skill when handling '' @ n
   @ '' tasks for: (1) Processing, (2) Analyzing, (3) Generating output, or any other ''
   @ n @ '' task''"
  let ?d' = "''Processing and manipulation for '' @ n
   @ ''. Use this skill when handling '' @ n
   @ '' tasks for: (3) Generating output, or any other ''
   @ n @ '' task''"
  from low have np: "CHR ''('' \<notin> set n" and ns: "\<forall>c \<in> set n. \<not> is_space c"
    by (auto simp: list_all_iff dest: lower_not_special)
  note ex = sub_examples_plain [OF np]
  note sc = sub_scenarios_plain [OF np]
  from len have ne: "n \<noteq> []" by auto
  note cw = collapse_ws_plain [OF ns] collapse_ws_space_plain [OF ne ns]
  have long: "length ?d > MAX_DESCRIPTION_LENGTH"
    using len by (simp add: MAX_DESCRIPTION_LENGTH_def)
  have e: "sub_examples ?d = ?d"
    by (simp add: ex sub_examples_step sub_examples_paren del: sub_examples.simps(2))
  have strip: "py_strip ?d = ?d"
    by (simp add: py_strip_def lstrip_chars_def is_space_def rstrip_chars_id)
  have strip': "py_strip ?d' = ?d'"
    by (simp add: py_strip_def lstrip_chars_def is_space_def rstrip_chars_id)
  have m1: "match_scenario (''(1) Processing, (2) Analyzing, (3) Generating output, or any other '' @ n @ '' task'')
      = Some (''(2) Analyzing, (3) Generating output, or any other '' @ n @ '' task'')"
    by (simp add: match_scenario_def match_enum_def is_digit_def digit_chars_def is_space_def)
  have m2: "match_scenario (''(2) Analyzing, (3) Generating output, or any other '' @ n @ '' task'')
      = Some (''(3) Generating output, or any other '' @ n @ '' task'')"
    by (simp add: match_scenario_def match_enum_def is_digit_def digit_chars_def is_space_def)
  have s2: "sub_scenarios 2 (''(1) Processing, (2) Analyzing, (3) Generating output, or any other '' @ n @ '' task'')
      = ''(3) Generating output, or any other '' @ n @ '' task''"
    using m1 m2 by (simp add: numeral_2_eq_2)
  have s: "sub_scenarios 2 ?d = ?d'"
    using s2 by (simp add: sc sub_scenarios_step numeral_2_eq_2 del: sub_scenarios.simps(3))
  have c: "collapse_ws ?d' = ?d'"
    by (simp add: cw collapse_ws_step collapse_ws_space is_space_def del: collapse_ws.simps(2))
  have r: "rstrip_chars (\<lambda>c. c = CHR '','' \<or> c = CHR ''.'') ?d' = ?d'"
    by (simp add: rstrip_chars_id)
  show ?thesis
    unfolding post_process_def Let_def using long by (simp only: if_True e strip s c strip' r)
qed

text \<open>
  Claim C1. The claim says that the returned description has at most 1024
  characters, and the generator means to ensure it: under the comment
  \<open>Ensure under limit\<close> it strips the examples and drops two enumerated items when the
  text is too long. The length is not looked at again after that. The skill name
  enters the capability phrase, the trigger context and the catch-all: for a name of
  303 letters, with no verbs, no file types, no scenarios and no headings, the
  template gives 1056 characters, nothing matches the examples pattern, two
  enumerated items are dropped, and 1025 characters are returned.
\<close>

theorem generated_length_over_limit:
  "length (fill_template (named_skill (replicate 303 (CHR ''a'')))) = 1056
   \<and> length (generate_optimized_description (named_skill (replicate 303 (CHR ''a'')))) = 1025"
proof -
  let ?n = "replicate 303 (CHR ''a'')"
  have low: "list_all is_lower ?n"
    by (simp add: list_all_iff is_lower_def lower_letters_def)
  have len: "300 \<le> length ?n" by simp
  show ?thesis
    unfolding generate_optimized_description_def fill_template_named [OF low]
      post_process_named [OF low len]
    by simp
qed

section \<open>A document with an empty description\<close>

lemma dropWhile_keeps_word:
  assumes "w \<noteq> []" and "\<not> P (hd w)"
  shows "dropWhile P (u @ w @ v) = dropWhile P u @ w @ v"
proof (induction u)
  case Nil
  from assms obtain c t where "w = c # t" and "\<not> P c" by (cases w) auto
  then show ?case by simp
next
  case (Cons x u)
  then show ?case by simp
qed

lemma rstrip_chars_keeps_word:
  assumes "w \<noteq> []" and "\<not> P (last w)"
  shows "rstrip_chars P (u @ w @ v) = u @ w @ rstrip_chars P v"
proof -
  from assms have a: "rev w \<noteq> []" and b: "\<not> P (hd (rev w))" by (simp_all add: hd_rev)
  have "dropWhile P (rev v @ rev w @ rev u) = dropWhile P (rev v) @ rev w @ rev u"
    by (rule dropWhile_keeps_word [of "rev w" P, OF a b])
  then show ?thesis by (simp add: rstrip_chars_def)
qed

lemma py_strip_keeps_word:
  assumes "w \<noteq> []" and "\<forall>c \<in> set w. \<not> is_space c"
  shows "\<exists>u' v'. py_strip (u @ w @ v) = u' @ w @ v' \<and> set u' \<subseteq> set u"
proof -
  from assms have h: "\<not> is_space (hd w)" and l: "\<not> is_space (last w)" by simp_all
  have "py_strip (u @ w @ v) = rstrip_chars is_space (dropWhile is_space u @ w @ v)"
    by (simp add: py_strip_def lstrip_chars_def dropWhile_keeps_word [of w is_space, OF assms(1) h])
  also have "\<dots> = dropWhile is_space u @ w @ rstrip_chars is_space v"
    by (rule rstrip_chars_keeps_word [of w is_space, OF assms(1) l])
  finally show ?thesis by (auto dest: set_dropWhileD)
qed

lemma collapse_ws_keeps_word:
  assumes "w \<noteq> []" and "\<forall>c \<in> set w. \<not> is_space c"
  shows "\<exists>u'. collapse_ws (u @ w @ v) = u' @ w @ collapse_ws v"
proof (induction u rule: collapse_ws.induct)
  case 1
  from collapse_ws_plain [OF assms(2), of v] show ?case by simp
next
  case (2 c cs)
  show ?case
  proof (cases "is_space c")
    case False
    with 2 obtain u' where "collapse_ws (cs @ w @ v) = u' @ w @ collapse_ws v" by auto
    with False have "collapse_ws ((c # cs) @ w @ v) = (c # u') @ w @ collapse_ws v" by simp
    then show ?thesis by blast
  next
    case True
    from assms have h: "\<not> is_space (hd w)" by simp
    have d: "dropWhile is_space (cs @ w @ v) = dropWhile is_space cs @ w @ v"
      by (rule dropWhile_keeps_word [of w is_space, OF assms(1) h])
    from 2 True obtain u' where "collapse_ws (dropWhile is_space cs @ w @ v) = u' @ w @ collapse_ws v"
      by auto
    with True d have "collapse_ws ((c # cs) @ w @ v) = (CHR '' '' # u') @ w @ collapse_ws v" by simp
    then show ?thesis by blast
  qed
qed

lemma post_process_keeps_word:
  assumes ne: "w \<noteq> []" and ns: "\<forall>c \<in> set w. \<not> is_space c"
    and lc: "last w \<noteq> CHR '',''" and ld: "last w \<noteq> CHR ''.''"
    and pu: "CHR ''('' \<notin> set u" and pw: "CHR ''('' \<notin> set w"
  shows "sublist w (post_process (u @ w @ v))"
proof -
  let ?d = "u @ w @ v"
  define d1 where "d1 = (if length ?d > MAX_DESCRIPTION_LENGTH then py_strip (sub_examples ?d) else ?d)"
  define d2 where "d2 = (if length d1 > MAX_DESCRIPTION_LENGTH then sub_scenarios 2 d1 else d1)"
  have pp: "post_process ?d = rstrip_chars (\<lambda>c. c = CHR '','' \<or> c = CHR ''.'') (py_strip (collapse_ws d2))"
    by (simp add: post_process_def Let_def d1_def d2_def)
  have "\<exists>u1 v1. d1 = u1 @ w @ v1 \<and> CHR ''('' \<notin> set u1"
  proof (cases "length ?d > MAX_DESCRIPTION_LENGTH")
    case False
    with pu show ?thesis unfolding d1_def by auto
  next
    case True
    from pu pw have "CHR ''('' \<notin> set (u @ w)" by simp
    then have "sub_examples ((u @ w) @ v) = (u @ w) @ sub_examples v"
      by (rule sub_examples_plain)
    then have "sub_examples ?d = u @ w @ sub_examples v" by simp
    moreover from py_strip_keeps_word [OF ne ns, of u "sub_examples v"]
    obtain u' v' where "py_strip (u @ w @ sub_examples v) = u' @ w @ v'" and "set u' \<subseteq> set u"
      by blast
    ultimately show ?thesis using True pu unfolding d1_def by auto
  qed
  then obtain u1 v1 where d1: "d1 = u1 @ w @ v1" and pu1: "CHR ''('' \<notin> set u1" by blast
  have "\<exists>v2. d2 = u1 @ w @ v2"
  proof (cases "length d1 > MAX_DESCRIPTION_LENGTH")
    case False
    with d1 show ?thesis unfolding d2_def by auto
  next
    case True
    from pu1 pw have "CHR ''('' \<notin> set (u1 @ w)" by simp
    then have "sub_scenarios 2 ((u1 @ w) @ v1) = (u1 @ w) @ sub_scenarios 2 v1"
      by (rule sub_scenarios_plain)
    with True d1 show ?thesis unfolding d2_def by auto
  qed
  then obtain v2 where d2: "d2 = u1 @ w @ v2" by blast
  from collapse_ws_keeps_word [OF ne ns, of u1 v2] d2
  obtain u3 where "collapse_ws d2 = u3 @ w @ collapse_ws v2" by auto
  with py_strip_keeps_word [OF ne ns, of u3 "collapse_ws v2"]
  obtain u4 v4 where "py_strip (collapse_ws d2) = u4 @ w @ v4" by auto
  moreover from lc ld have "\<not> (\<lambda>c. c = CHR '','' \<or> c = CHR ''.'') (last w)" by simp
  with ne have "rstrip_chars (\<lambda>c. c = CHR '','' \<or> c = CHR ''.'') (u4 @ w @ v4)
      = u4 @ w @ rstrip_chars (\<lambda>c. c = CHR '','' \<or> c = CHR ''.'') v4"
    by (rule rstrip_chars_keeps_word)
  ultimately show ?thesis unfolding pp by simp
qed

lemma find_action_verbs_vocabulary: "set (find_action_verbs content) \<subseteq> set ACTION_VERBS"
proof -
  let ?found = "filter (\<lambda>w. w \<in> set ACTION_VERBS) (findall_words (py_lower content))"
  have "find_action_verbs content = take 10 (map fst (sort_key (\<lambda>(w, k). - int k) (Counter ?found)))"
    by (simp add: find_action_verbs_def most_common_def Let_def take_map)
  then have "set (find_action_verbs content) \<subseteq> set (map fst (sort_key (\<lambda>(w, k). - int k) (Counter ?found)))"
    by (simp only: set_take_subset)
  also have "\<dots> = set ?found" using Counter_keys [of ?found] by simp
  also have "\<dots> \<subseteq> set ACTION_VERBS" by auto
  finally show ?thesis .
qed

lemma action_verbs_lower: "\<forall>v \<in> set ACTION_VERBS. v \<noteq> [] \<and> list_all is_lower v"
  by (simp add: ACTION_VERBS_def is_lower_def lower_letters_def)

lemma all_extensions_nonempty: "[] \<notin> set ALL_EXTENSIONS"
  by (simp add: ALL_EXTENSIONS_def)

lemma alpha_not_special:
  assumes "is_alpha c"
  shows "\<not> is_space c" "c \<noteq> CHR ''(''" "c \<noteq> CHR '',''" "c \<noteq> CHR ''.''"
  using assms
  by (auto simp: is_alpha_def is_lower_def is_upper_def lower_letters_def upper_letters_def is_space_def)

lemma lower_char_ascii: "is_upper c \<Longrightarrow> is_lower (lower_char c)"
  by (auto simp: is_upper_def is_lower_def upper_letters_def lower_letters_def lower_char_def)

lemma upper_char_ascii: "is_lower c \<Longrightarrow> is_upper (upper_char c)"
  by (auto simp: is_upper_def is_lower_def upper_letters_def lower_letters_def upper_char_def)

lemma upper_char_alpha: "is_alpha c \<Longrightarrow> is_alpha (upper_char c)"
proof (cases "is_lower c")
  case True
  then have "is_upper (upper_char c)" by (rule upper_char_ascii)
  then show ?thesis by (simp add: is_alpha_def)
next
  case False
  assume "is_alpha c"
  with False have u: "is_upper c" by (simp add: is_alpha_def)
  have "upper_char c = c"
  proof (rule ccontr)
    assume "upper_char c \<noteq> c"
    then have "is_lower c \<or> c \<in> set latin_lower" by (rule upper_char_changes)
    with False u upper_not_latin show False by blast
  qed
  with u show ?thesis by (simp add: is_alpha_def)
qed

lemma lower_char_alpha: "is_alpha c \<Longrightarrow> is_alpha (lower_char c)"
  using lower_char_lower [of c] lower_char_ascii [of c]
  by (auto simp: is_alpha_def)

lemma title_from_paren: "CHR ''('' \<notin> set s \<Longrightarrow> CHR ''('' \<notin> set (title_from b s)"
proof (induction b s rule: title_from.induct)
  case (1 prev)
  then show ?case by simp
next
  case (2 prev c cs)
  from "2.prems" have c: "c \<noteq> CHR ''(''" by auto
  then have "lower_char c \<noteq> CHR ''(''" and "upper_char c \<noteq> CHR ''(''"
    by (simp_all add: lower_char_fixed upper_char_fixed special_no_case_letter)
  with 2 c show ?case by auto
qed

lemma title_from_head:
  "s \<noteq> [] \<Longrightarrow> is_alpha (hd s) \<Longrightarrow> title_from b s \<noteq> [] \<and> is_alpha (hd (title_from b s))"
  by (cases s) (auto simp: lower_char_alpha upper_char_alpha is_cased_def)

lemma join_Cons: "join sep (x # xs) = x @ (if xs = [] then [] else sep @ join sep xs)"
  by (cases xs) simp_all

lemma in_set_join: "c \<in> set (join sep xs) \<Longrightarrow> c \<in> set sep \<or> (\<exists>x \<in> set xs. c \<in> set x)"
  by (induction sep xs rule: join.induct) auto

lemma verb_phrase_shape:
  assumes "set vs \<subseteq> set ACTION_VERBS"
  shows "verb_phrase vs \<noteq> [] \<and> is_alpha (hd (verb_phrase vs)) \<and> CHR ''('' \<notin> set (verb_phrase vs)"
proof (cases "vs = []")
  case True
  then show ?thesis
    by (simp add: verb_phrase_def is_alpha_def is_upper_def upper_letters_def)
next
  case False
  let ?s = "if length vs > 1 then join '', '' (butlast vs) @ '', and '' @ last vs else hd vs"
  from assms action_verbs_lower have low: "\<forall>v \<in> set vs. v \<noteq> [] \<and> list_all is_lower v" by blast
  from False obtain x xs where vs: "vs = x # xs" by (cases vs) auto
  with low have x: "x \<noteq> []" "is_lower (hd x)" by (auto simp: list_all_iff)
  have hd_s: "?s \<noteq> [] \<and> hd ?s = hd x"
  proof (cases xs)
    case Nil
    with vs x show ?thesis by simp
  next
    case (Cons y ys)
    then have "butlast vs = x # butlast xs" using vs by simp
    then have "join '', '' (butlast vs) = x @ (if butlast xs = [] then [] else '', '' @ join '', '' (butlast xs))"
      by (simp only: join_Cons)
    with vs Cons x show ?thesis by simp
  qed
  have np: "CHR ''('' \<notin> set ?s"
  proof
    assume "CHR ''('' \<in> set ?s"
    then have "CHR ''('' \<in> set (join '', '' (butlast vs)) \<or> CHR ''('' \<in> set (last vs) \<or> CHR ''('' \<in> set (hd vs)"
      by (auto split: if_splits)
    then have "\<exists>v \<in> set vs. CHR ''('' \<in> set v"
      using False by (auto dest!: in_set_join dest: in_set_butlastD)
    then obtain v where "v \<in> set vs" and "CHR ''('' \<in> set v" by blast
    with low have "is_lower (CHR ''('')" by (auto simp: list_all_iff)
    then show False by (simp add: is_lower_def lower_letters_def)
  qed
  from hd_s x have "?s \<noteq> []" and "is_alpha (hd ?s)" by (simp_all add: is_alpha_def)
  then have "title_from False ?s \<noteq> [] \<and> is_alpha (hd (title_from False ?s))"
    by (rule title_from_head)
  moreover from np have "CHR ''('' \<notin> set (title_from False ?s)" by (rule title_from_paren)
  ultimately show ?thesis using False by (simp add: verb_phrase_def py_title_def)
qed

lemma fill_template_starts: "\<exists>t. fill_template a = generate_capability_phrase a @ t"
  by (simp add: fill_template_def Let_def)

lemma generated_keeps_signal:
  assumes verbs: "set (action_verbs a) \<subseteq> set ACTION_VERBS"
    and types: "set (file_types a) \<subseteq> set ALL_EXTENSIONS"
  shows "generate_optimized_description a \<noteq> []
     \<and> score_file_types (generate_optimized_description a) a = 15"
proof -
  let ?vp = "verb_phrase (take 4 (action_verbs a))"
  let ?g = "generate_optimized_description a"
  from verbs have "set (take 4 (action_verbs a)) \<subseteq> set ACTION_VERBS"
    by (auto dest: in_set_takeD)
  then have shape: "?vp \<noteq> []" "is_alpha (hd ?vp)" "CHR ''('' \<notin> set ?vp"
    using verb_phrase_shape by blast+
  obtain t where fill: "fill_template a = generate_capability_phrase a @ t"
    using fill_template_starts by blast
  show ?thesis
  proof (cases "file_types a = []")
    case True
    let ?w = "[hd ?vp]"
    from shape(1) have vp: "?vp = ?w @ tl ?vp" by simp
    from True fill obtain v where "fill_template a = ?vp @ v"
      by (simp add: generate_capability_phrase_def Let_def)
    with vp have d: "fill_template a = [] @ ?w @ (tl ?vp @ v)" by simp
    from shape(2) have "sublist ?w (post_process ([] @ ?w @ (tl ?vp @ v)))"
      by (intro post_process_keeps_word) (auto dest: alpha_not_special)
    with d have "sublist ?w ?g" by (simp add: generate_optimized_description_def)
    then have "?g \<noteq> []" by auto
    with True show ?thesis by (simp add: score_file_types_def)
  next
    case False
    then obtain e rest where fts: "file_types a = e # rest" by (cases "file_types a") auto
    with types all_extensions_lower all_extensions_nonempty
    have e: "e \<noteq> []" "list_all is_lower e" by auto
    let ?w = "CHR ''.'' # e"
    let ?u = "?vp @ '' for ''"
    from fts obtain r where "dotted 3 (file_types a) = ?w @ r"
      by (simp add: dotted_def join_Cons)
    with False fill obtain v where d: "fill_template a = ?u @ ?w @ v"
      by (simp add: generate_capability_phrase_def Let_def)
    from e have alpha: "\<forall>c \<in> set e. is_alpha c" and last: "is_alpha (last e)"
      by (auto simp: list_all_iff is_alpha_def)
    have "sublist ?w (post_process (?u @ ?w @ v))"
    proof (rule post_process_keeps_word)
      show "?w \<noteq> []" by simp
      have "\<not> is_space (CHR ''.'')" by (simp add: is_space_def)
      with alpha show "\<forall>c \<in> set ?w. \<not> is_space c"
        by (auto dest: alpha_not_special(1))
      show "last ?w \<noteq> CHR '',''" "last ?w \<noteq> CHR ''.''"
        using e(1) last by (simp_all add: alpha_not_special)
      show "CHR ''('' \<notin> set ?u" using shape(3) by simp
      show "CHR ''('' \<notin> set ?w" using alpha by (auto dest: alpha_not_special(2))
    qed
    with d have sub: "sublist ?w ?g" by (simp add: generate_optimized_description_def)
    then have ne: "?g \<noteq> []" by auto
    from sub have "sublist (map lower_char ?w) (map lower_char ?g)" by (rule map_mono_sublist)
    moreover have "map lower_char ?w = ?w"
    proof -
      have "\<not> is_word (CHR ''.'')"
        by (simp add: is_word_def is_alpha_def is_upper_def is_lower_def is_digit_def
            upper_letters_def lower_letters_def digit_chars_def latin_upper_def latin_lower_def
            latin_other_word_def)
      then have "lower_char (CHR ''.'') = CHR ''.''" by (rule lower_char_nonword)
      with py_lower_lower [OF e(2)] show ?thesis by (simp add: py_lower_def)
    qed
    ultimately have "sublist (''.'' @ e) (py_lower ?g)" by (simp add: py_lower_def)
    with fts have "filter (\<lambda>ext. sublist (''.'' @ ext) (py_lower ?g)) (file_types a) \<noteq> []"
      by simp
    then have "mentioned ?g (file_types a) > 0" by (simp add: mentioned_def)
    with False ne show ?thesis by (simp add: score_file_types_def)
  qed
qed

lemma find_file_types_nonempty_entries: "[] \<notin> set (find_file_types content)"
  using find_file_types_vocabulary [of content] all_extensions_nonempty by blast

lemma quality_checks_empty:
  assumes "[] \<notin> set fts"
  shows "quality_checks [] fts
    = [issue_too_short, issue_trigger, issue_enum] @ (if fts = [] then [] else [issue_file_types fts])"
proof -
  from assms have "\<not> any_ext_in [] fts"
    by (auto simp: any_ext_in_def list_ex_iff py_lower_def)
  then show ?thesis
    by (simp add: quality_checks_def search_trigger_analyzer_def py_lower_def has_angle_def)
qed

text \<open>
  Claim C4, as amended. For a document whose front matter has the empty description,
  the quality issues are: too short, missing trigger phrase, no enumerated scenarios,
  and the file-type issue when file types were found. That makes 4 entries with file
  types and 3 without. The empty description scores 0. The generated description
  scores more: it is not empty and always earns the 15 file-type points, because
  the first letter of the capability phrase and, with file types, the first dotted
  extension stand before any parenthesis and so outlive the post-processing. Hence
  the comparison \<open>generated_score > current_score\<close> selects the generated description.
\<close>

theorem empty_description_issues_and_choice:
  fixes fm_name content body :: string and hs scenarios :: "string list"
  defines "a \<equiv> analyze_skill fm_name [] content body hs scenarios"
  shows "quality_issues a
       = [issue_too_short, issue_trigger, issue_enum]
         @ (if file_types a = [] then [] else [issue_file_types (file_types a)])
     \<and> length (quality_issues a) = (if file_types a = [] then 3 else 4)
     \<and> score_description (current_description a) a = 0
     \<and> 0 < score_description (generate_optimized_description a) a
     \<and> best_description a = generate_optimized_description a"
proof -
  let ?g = "generate_optimized_description a"
  have ft: "file_types a = find_file_types content"
    and av: "action_verbs a = find_action_verbs body"
    and cur: "current_description a = []"
    and qi: "quality_issues a = quality_checks [] (find_file_types content)"
    by (simp_all add: a_def analyze_skill_def)
  have issues: "quality_issues a
       = [issue_too_short, issue_trigger, issue_enum]
         @ (if file_types a = [] then [] else [issue_file_types (file_types a)])"
    unfolding qi ft using find_file_types_nonempty_entries by (rule quality_checks_empty)
  then have count: "length (quality_issues a) = (if file_types a = [] then 3 else 4)" by simp
  have zero: "score_description (current_description a) a = 0"
    by (simp add: cur score_description_def)
  have "set (action_verbs a) \<subseteq> set ACTION_VERBS"
    unfolding av by (rule find_action_verbs_vocabulary)
  moreover have "set (file_types a) \<subseteq> set ALL_EXTENSIONS"
    unfolding ft by (rule find_file_types_vocabulary)
  ultimately have sig: "?g \<noteq> []" "score_file_types ?g a = 15"
    using generated_keeps_signal by blast+
  have pos: "0 < score_description ?g a"
    using sig score_length_range [of ?g] score_trigger_range [of ?g] score_enum_range [of ?g]
      score_catchall_range [of ?g] score_examples_range [of ?g] score_antipattern_range [of ?g]
    by (simp add: score_description_def)
  with zero have best: "best_description a = ?g"
    by (simp add: best_description_def Let_def)
  from issues count zero pos best show ?thesis by blast
qed

theorem empty_description_issues_and_choice_witness:
  "length (quality_issues (analyze_skill ''pdf-filler'' [] ''Fill the form.pdf'' ''Fill the form.pdf'' [] [])) = 4
   \<and> best_description (analyze_skill ''pdf-filler'' [] ''Fill the form.pdf'' ''Fill the form.pdf'' [] [])
       = generate_optimized_description (analyze_skill ''pdf-filler'' [] ''Fill the form.pdf'' ''Fill the form.pdf'' [] [])"
proof -
  have "find_file_types ''Fill the form.pdf'' = [''pdf'']" by code_simp
  then have "file_types (analyze_skill ''pdf-filler'' [] ''Fill the form.pdf'' ''Fill the form.pdf'' [] []) \<noteq> []"
    by (simp add: analyze_skill_def)
  with empty_description_issues_and_choice [of "''pdf-filler''" "''Fill the form.pdf''" "''Fill the form.pdf''" "[]" "[]"]
  show ?thesis by simp
qed

text \<open>
  Claim C4, as stated. A document with the empty description that mentions \<open>.pdf\<close>
  has file types, and its list of quality issues has 4 entries, not 5.
\<close>

theorem empty_description_issue_count_counterexample:
  "find_file_types ''Fill the form.pdf'' \<noteq> []
   \<and> length (quality_issues (analyze_skill ''pdf-filler'' [] ''Fill the form.pdf'' ''Fill the form.pdf'' [] [])) \<noteq> 5"
  by code_simp

end
